theory Spec2Isabelle
  imports Main "HOL-Library.Sublist" "HOL-Library.Multiset"
begin

section \<open>Python exceptions as values\<close>

text \<open>
  Every \<^verbatim>\<open>raise\<close> of the sources, and every exception the interpreter raises on the
  calls the sources make, is a value of this type; a function that may raise returns
  \<open>py_error + 'a\<close> with \<open>Inl\<close> for the exception.
\<close>

datatype py_error =
    ValueError string
  | AttributeError string
  | TypeError string
  | OperationalError string
  | OverflowError string
  | TimeoutExpired
  | OSError string

text \<open>The text of \<^verbatim>\<open>str(e)\<close>; the constructors carry the message.\<close>

fun exc_str :: "py_error \<Rightarrow> string" where
  "exc_str (ValueError m) = m"
| "exc_str (AttributeError m) = m"
| "exc_str (TypeError m) = m"
| "exc_str (OperationalError m) = m"
| "exc_str (OverflowError m) = m"
| "exc_str TimeoutExpired = ''timed out''"
| "exc_str (OSError m) = m"

definition quoted :: "string \<Rightarrow> string" where
  "quoted s = [CHR 0x27] @ s @ [CHR 0x27]"

text \<open>The interpreter's messages for a missing attribute and for a keyword that the
  callee does not declare.\<close>

definition no_attribute :: "string \<Rightarrow> string \<Rightarrow> py_error" where
  "no_attribute cls attr =
     AttributeError (quoted cls @ '' object has no attribute '' @ quoted attr)"

definition unexpected_keyword :: "string \<Rightarrow> string \<Rightarrow> py_error" where
  "unexpected_keyword callee kw =
     TypeError (callee @ ''() got an unexpected keyword argument '' @ quoted kw)"

definition missing_argument :: "string \<Rightarrow> string \<Rightarrow> py_error" where
  "missing_argument callee param =
     TypeError (callee @ ''() missing 1 required positional argument: '' @ quoted param)"

text \<open>
  Binding a call that passes keywords only (as the calls of \<^verbatim>\<open>append_event\<close>,
  \<^verbatim>\<open>update_worker_status\<close> and \<^verbatim>\<open>Task\<close> in worker.py and orchestrator.py do) against
  the parameters of a \<^verbatim>\<open>def\<close>: a keyword that is no parameter is refused, then a
  parameter without default that got no value.
\<close>

definition bind_error :: "string \<Rightarrow> string list \<Rightarrow> string list \<Rightarrow> string list \<Rightarrow> py_error option"
  where
  "bind_error callee params required keywords =
     (case filter (\<lambda>k. k \<notin> set params) keywords of
        k # _ \<Rightarrow> Some (unexpected_keyword callee k)
      | [] \<Rightarrow> (case filter (\<lambda>p. p \<notin> set keywords) required of
                 p # _ \<Rightarrow> Some (missing_argument callee p)
               | [] \<Rightarrow> None))"

section \<open>Decimal text of an integer (f-strings, messages)\<close>

function dec_nat :: "nat \<Rightarrow> string" where
  "dec_nat n = (if n < 10 then [char_of (48 + n)] else dec_nat (n div 10) @ [char_of (48 + n mod 10)])"
  by pat_completeness auto
termination
  by (relation "measure id") auto

definition str_int :: "int \<Rightarrow> string" where
  "str_int i = (if i < 0 then CHR ''-'' # dec_nat (nat (- i)) else dec_nat (nat i))"

section \<open>Task definitions (orchestrator.py)\<close>

record TaskDefinition =
  name :: string
  command :: string
  prompt :: string
  dependencies :: "string list"
  timeout :: int

subsection \<open>\<^verbatim>\<open>Orchestrator._validate_dependencies\<close>\<close>

definition unknown_dependency_msg :: "string \<Rightarrow> string \<Rightarrow> string" where
  "unknown_dependency_msg task_name dep =
     ''Task '' @ [CHR 0x27] @ task_name @ [CHR 0x27] @ '' depends on unknown task ''
       @ [CHR 0x27] @ dep @ [CHR 0x27]"

text \<open>The inner loop \<^verbatim>\<open>for dep in task.dependencies\<close>.\<close>

fun validate_deps_of :: "string set \<Rightarrow> string \<Rightarrow> string list \<Rightarrow> py_error + unit" where
  "validate_deps_of task_names task_name [] = Inr ()"
| "validate_deps_of task_names task_name (dep # deps) =
     (if dep \<notin> task_names then Inl (ValueError (unknown_dependency_msg task_name dep))
      else validate_deps_of task_names task_name deps)"

text \<open>The outer loop \<^verbatim>\<open>for task in self.task_defs\<close>.\<close>

fun validate_tasks :: "string set \<Rightarrow> TaskDefinition list \<Rightarrow> py_error + unit" where
  "validate_tasks task_names [] = Inr ()"
| "validate_tasks task_names (task # tasks) =
     (case validate_deps_of task_names (name task) (dependencies task) of
        Inl e \<Rightarrow> Inl e
      | Inr _ \<Rightarrow> validate_tasks task_names tasks)"

definition validate_dependencies :: "TaskDefinition list \<Rightarrow> py_error + unit" where
  "validate_dependencies task_defs = validate_tasks (set (map name task_defs)) task_defs"

subsection \<open>\<^verbatim>\<open>Orchestrator._resolve_dependencies\<close>\<close>

text \<open>
  One round of the \<^verbatim>\<open>while\<close> loop collects, in input order, every task whose name is
  not in \<open>completed\<close> and whose dependencies all are.
\<close>

definition ready_tasks :: "TaskDefinition list \<Rightarrow> string set \<Rightarrow> TaskDefinition list" where
  "ready_tasks task_defs completed =
     filter (\<lambda>task. name task \<notin> completed \<and> (\<forall>dep \<in> set (dependencies task). dep \<in> completed))
       task_defs"

definition circular_msg :: string where
  "circular_msg = ''Circular dependency detected in tasks''"

text \<open>
  The loop \<^verbatim>\<open>while len(completed) < len(self.task_defs)\<close>: \<open>completed\<close> is a Python set
  of names, \<open>len(self.task_defs)\<close> counts the list with its duplicates.
\<close>

function resolve_loop ::
  "TaskDefinition list \<Rightarrow> string set \<Rightarrow> TaskDefinition list list
     \<Rightarrow> py_error + TaskDefinition list list" where
  "resolve_loop task_defs completed batches =
     (if card completed < length task_defs then
        (if ready_tasks task_defs completed = [] then Inl (ValueError circular_msg)
         else resolve_loop task_defs
                (completed \<union> set (map name (ready_tasks task_defs completed)))
                (batches @ [ready_tasks task_defs completed]))
      else Inr batches)"
  by pat_completeness auto
termination
proof (relation "measure (\<lambda>(task_defs, completed, batches).
                    card (set (map name task_defs) - completed))")
  show "wf (measure (\<lambda>(task_defs, completed, batches).
                    card (set (map name task_defs) - completed)))"
    by simp
next
  fix task_defs :: "TaskDefinition list" and completed :: "string set"
    and batches :: "TaskDefinition list list"
  assume "ready_tasks task_defs completed \<noteq> []"
  then obtain t where t: "t \<in> set (ready_tasks task_defs completed)"
    by (cases "ready_tasks task_defs completed") auto
  then have tin: "t \<in> set task_defs" and tnew: "name t \<notin> completed"
    by (auto simp: ready_tasks_def)
  let ?N = "set (map name task_defs)"
  let ?C' = "completed \<union> set (map name (ready_tasks task_defs completed))"
  have "name t \<in> ?N - completed" using tin tnew by auto
  moreover have "name t \<notin> ?N - ?C'" using t by auto
  moreover have "?N - ?C' \<subseteq> ?N - completed" by auto
  ultimately have "?N - ?C' \<subset> ?N - completed" by blast
  then have "card (?N - ?C') < card (?N - completed)"
    by (intro psubset_card_mono) auto
  then show "((task_defs, ?C', batches @ [ready_tasks task_defs completed]),
              (task_defs, completed, batches))
             \<in> measure (\<lambda>(task_defs, completed, batches).
                    card (set (map name task_defs) - completed))"
    by simp
qed

definition resolve_dependencies :: "TaskDefinition list \<Rightarrow> py_error + TaskDefinition list list" where
  "resolve_dependencies task_defs = resolve_loop task_defs {} []"

section \<open>The resolver: dependency relation and layering\<close>

definition dep_rel :: "TaskDefinition list \<Rightarrow> (string \<times> string) set" where
  "dep_rel task_defs =
     {(name task, dep) | task dep. task \<in> set task_defs \<and> dep \<in> set (dependencies task)}"

definition valid_deps :: "TaskDefinition list \<Rightarrow> bool" where
  "valid_deps task_defs =
     (\<forall>task \<in> set task_defs. \<forall>dep \<in> set (dependencies task). dep \<in> set (map name task_defs))"

definition placed_before :: "TaskDefinition list list \<Rightarrow> nat \<Rightarrow> string set" where
  "placed_before batches i = set (map name (concat (take i batches)))"

definition layered :: "TaskDefinition list \<Rightarrow> TaskDefinition list list \<Rightarrow> bool" where
  "layered task_defs batches =
     (\<forall>i < length batches. batches ! i = ready_tasks task_defs (placed_before batches i))"

lemma placed_before_append_left:
  "i \<le> length B \<Longrightarrow> placed_before (B @ [r]) i = placed_before B i"
  by (simp add: placed_before_def)

lemma placed_before_all: "placed_before B (length B) = set (map name (concat B))"
  by (simp add: placed_before_def)

lemma layered_snoc:
  assumes "layered T B" "r = ready_tasks T (placed_before B (length B))"
  shows "layered T (B @ [r])"
  unfolding layered_def
proof (intro allI impI)
  fix i assume "i < length (B @ [r])"
  then consider "i < length B" | "i = length B" by fastforce
  then show "(B @ [r]) ! i = ready_tasks T (placed_before (B @ [r]) i)"
  proof cases
    case 1
    then show ?thesis using assms(1)
      by (simp add: layered_def nth_append placed_before_append_left)
  next
    case 2
    then show ?thesis using assms(2)
      by (simp add: nth_append placed_before_append_left)
  qed
qed

lemma resolve_loop_layered:
  "resolve_loop T C B = Inr R \<Longrightarrow> C = set (map name (concat B)) \<Longrightarrow> layered T B \<Longrightarrow>
     layered T R \<and> length T \<le> card (set (map name (concat R)))"
proof (induction T C B rule: resolve_loop.induct)
  case (1 T C B)
  show ?case
  proof (cases "card C < length T")
    case False
    with "1.prems" show ?thesis by (simp add: resolve_loop.simps[of T C B])
  next
    case True
    let ?r = "ready_tasks T C"
    from True "1.prems"(1) have ne: "?r \<noteq> []"
      by (auto simp: resolve_loop.simps[of T C B] split: if_splits)
    with True "1.prems"(1) have rec: "resolve_loop T (C \<union> set (map name ?r)) (B @ [?r]) = Inr R"
      by (simp add: resolve_loop.simps[of T C B])
    have c: "C \<union> set (map name ?r) = set (map name (concat (B @ [?r])))"
      using "1.prems"(2) by auto
    have l: "layered T (B @ [?r])"
      using "1.prems"(2,3) by (intro layered_snoc) (simp_all add: placed_before_all)
    from "1.IH"[OF True ne rec c l] show ?thesis .
  qed
qed

subsection \<open>Consequences of the layering\<close>

lemma placed_before_mono: "i \<le> j \<Longrightarrow> placed_before R i \<subseteq> placed_before R j"
proof -
  assume "i \<le> j"
  then have "take i R = take i (take j R)" by (simp add: min_def)
  then have "set (take i R) \<subseteq> set (take j R)" by (metis set_take_subset)
  then show ?thesis by (auto simp: placed_before_def)
qed

lemma placed_before_Suc:
  "i < length R \<Longrightarrow> placed_before R (Suc i) = placed_before R i \<union> name ` set (R ! i)"
  by (auto simp: placed_before_def take_Suc_conv_app_nth)

lemma placed_before_iff:
  "x \<in> placed_before R i \<longleftrightarrow> (\<exists>j<i. j < length R \<and> x \<in> name ` set (R ! j))"
proof (induction i)
  case 0
  then show ?case by (simp add: placed_before_def)
next
  case (Suc i)
  show ?case
  proof (cases "i < length R")
    case True
    then show ?thesis using Suc by (auto simp: placed_before_Suc less_Suc_eq)
  next
    case False
    then have "placed_before R (Suc i) = placed_before R i" by (simp add: placed_before_def)
    then show ?thesis using Suc False by (auto simp: less_Suc_eq)
  qed
qed

lemma layered_batch:
  assumes "layered T R" "i < length R" "t \<in> set (R ! i)"
  shows "t \<in> set T" "name t \<notin> placed_before R i" "set (dependencies t) \<subseteq> placed_before R i"
  using assms by (auto simp: layered_def ready_tasks_def)

lemma layered_unique_batch:
  assumes "layered T R" "i < length R" "j < length R" "t \<in> set (R ! i)" "u \<in> set (R ! j)"
    "name t = name u"
  shows "i = j"
proof (rule ccontr)
  assume "i \<noteq> j"
  then consider "i < j" | "j < i" by linarith
  then show False
  proof cases
    case 1
    then have "name t \<in> placed_before R j" using assms(2,4) by (auto simp: placed_before_iff)
    then show False using layered_batch(2)[OF assms(1,3,5)] assms(6) by simp
  next
    case 2
    then have "name u \<in> placed_before R i" using assms(3,5) by (auto simp: placed_before_iff)
    then show False using layered_batch(2)[OF assms(1,2,4)] assms(6) by simp
  qed
qed

lemma layered_deps_earlier:
  assumes "layered T R" "i < length R" "t \<in> set (R ! i)" "d \<in> set (dependencies t)"
  shows "\<exists>j<i. d \<in> name ` set (R ! j)"
proof -
  have "d \<in> placed_before R i" using layered_batch(3)[OF assms(1-3)] assms(4) by auto
  then show ?thesis unfolding placed_before_iff by blast
qed

lemma layered_earliest:
  assumes "layered T R" "i < length R" "t \<in> set (R ! i)" "k < i"
  shows "\<not> set (dependencies t) \<subseteq> placed_before R k"
proof
  assume sub: "set (dependencies t) \<subseteq> placed_before R k"
  have kR: "k < length R" using assms(2,4) by simp
  have "placed_before R k \<subseteq> placed_before R i" using assms(4) by (simp add: placed_before_mono)
  then have "name t \<notin> placed_before R k" using layered_batch(2)[OF assms(1-3)] by auto
  then have "t \<in> set (ready_tasks T (placed_before R k))"
    using sub layered_batch(1)[OF assms(1-3)] by (auto simp: ready_tasks_def)
  then have "t \<in> set (R ! k)" using assms(1) kR by (simp add: layered_def)
  then have "name t \<in> placed_before R i" using assms(4) kR by (auto simp: placed_before_iff)
  then show False using layered_batch(2)[OF assms(1-3)] by simp
qed

lemma layered_input_order:
  assumes "layered T R" "i < length R"
  shows "R ! i = filter (\<lambda>t. t \<in> set (R ! i)) T"
proof -
  have "R ! i = ready_tasks T (placed_before R i)" using assms by (simp add: layered_def)
  then obtain P where P: "R ! i = filter P T" by (auto simp: ready_tasks_def)
  have "filter (\<lambda>t. t \<in> set (filter P T)) T = filter P T"
    by (rule filter_cong) auto
  then show ?thesis using P by simp
qed

lemma layered_distinct_names:
  assumes "layered T R" "distinct (map name T)"
  shows "i \<le> length R \<Longrightarrow> distinct (map name (concat (take i R)))"
proof (induction i)
  case 0
  then show ?case by simp
next
  case (Suc i)
  then have i: "i < length R" by simp
  have "R ! i = ready_tasks T (placed_before R i)" using assms(1) i by (simp add: layered_def)
  then have d1: "distinct (map name (R ! i))"
    using assms(2) by (simp add: ready_tasks_def distinct_map_filter)
  have "name t \<notin> set (map name (concat (take i R)))" if "t \<in> set (R ! i)" for t
    using layered_batch(2)[OF assms(1) i that] unfolding placed_before_def .
  then have "\<forall>n \<in> set (map name (R ! i)). n \<notin> set (map name (concat (take i R)))"
    by (simp add: image_iff)
  then have d2: "set (map name (concat (take i R))) \<inter> set (map name (R ! i)) = {}"
    by blast
  show ?case using Suc i d1 d2 by (simp add: take_Suc_conv_app_nth)
qed

lemma layered_subset:
  assumes "layered T R"
  shows "set (concat R) \<subseteq> set T"
proof
  fix t assume "t \<in> set (concat R)"
  then obtain b where b: "b \<in> set R" "t \<in> set b" by auto
  then obtain i where "i < length R" "R ! i = b" by (auto simp: in_set_conv_nth)
  then show "t \<in> set T" using layered_batch(1)[OF assms, of i t] b by simp
qed

lemma layered_complete:
  assumes "layered T R" "distinct (map name T)" "length T \<le> card (set (map name (concat R)))"
  shows "mset (concat R) = mset T"
proof -
  have sub: "set (concat R) \<subseteq> set T" using assms(1) by (rule layered_subset)
  then have nsub: "set (map name (concat R)) \<subseteq> set (map name T)" by auto
  have "card (set (map name T)) = length T" using distinct_card[OF assms(2)] by simp
  then have neq: "set (map name (concat R)) = set (map name T)"
    using assms(3) nsub by (intro card_seteq) auto
  have inj: "inj_on name (set T)" using assms(2) by (simp add: distinct_map)
  have "set T \<subseteq> set (concat R)"
  proof
    fix t assume t: "t \<in> set T"
    then have "name t \<in> name ` set (concat R)" using neq by simp
    then obtain u where u: "u \<in> set (concat R)" "name t = name u" by (rule imageE)
    have "u \<in> set T" using u(1) sub by blast
    then have "u = t" using inj t u(2) by (simp add: inj_on_def)
    then show "t \<in> set (concat R)" using u(1) by simp
  qed
  then have seq: "set (concat R) = set T" using sub by auto
  have "distinct (map name (concat R))"
    using layered_distinct_names[OF assms(1,2), of "length R"] by simp
  then have "distinct (concat R)" by (simp add: distinct_map)
  moreover have "distinct T" using assms(2) by (simp add: distinct_map)
  ultimately show ?thesis using seq set_eq_iff_mset_eq_distinct[of "concat R" T] by blast
qed

subsection \<open>Success and failure of the loop\<close>

lemma finite_dep_rel: "finite (dep_rel T)"
proof -
  have "dep_rel T \<subseteq> set (map name T) \<times> (\<Union>t \<in> set T. set (dependencies t))"
    by (auto simp: dep_rel_def)
  then show ?thesis by (rule finite_subset) auto
qed

lemma ready_exists:
  assumes "distinct (map name T)" "valid_deps T" "acyclic (dep_rel T)"
    "C \<subseteq> set (map name T)" "card C < length T"
  shows "ready_tasks T C \<noteq> []"
proof -
  let ?N = "set (map name T)"
  have "card ?N = length T" using distinct_card[OF assms(1)] by simp
  then have "C \<noteq> ?N" using assms(5) by auto
  then obtain x where x: "x \<in> ?N - C" using assms(4) by auto
  have "wf ((dep_rel T)\<inverse>)"
    using finite_dep_rel assms(3) by (rule finite_acyclic_wf_converse)
  from wfE_min[OF this x] obtain z where z: "z \<in> ?N - C"
    and zmin: "\<And>y. (y, z) \<in> (dep_rel T)\<inverse> \<Longrightarrow> y \<notin> ?N - C" by blast
  from z obtain t where t: "t \<in> set T" "name t = z" by auto
  have "d \<in> C" if d: "d \<in> set (dependencies t)" for d
  proof -
    have "(z, d) \<in> dep_rel T" using t d by (auto simp: dep_rel_def)
    then have "d \<notin> ?N - C" using zmin by simp
    moreover have "d \<in> ?N" using assms(2) t(1) d by (auto simp: valid_deps_def)
    ultimately show ?thesis by simp
  qed
  then have "t \<in> set (ready_tasks T C)" using t z by (auto simp: ready_tasks_def)
  then show ?thesis by auto
qed

lemma ready_names_subset: "set (map name (ready_tasks T C)) \<subseteq> set (map name T)"
  by (auto simp: ready_tasks_def)

lemma resolve_loop_succeeds:
  "distinct (map name T) \<Longrightarrow> valid_deps T \<Longrightarrow> acyclic (dep_rel T) \<Longrightarrow>
     C \<subseteq> set (map name T) \<Longrightarrow> \<exists>R. resolve_loop T C B = Inr R"
proof (induction T C B rule: resolve_loop.induct)
  case (1 T C B)
  show ?case
  proof (cases "card C < length T")
    case False
    then show ?thesis by (simp add: resolve_loop.simps[of T C B])
  next
    case True
    let ?r = "ready_tasks T C"
    have ne: "?r \<noteq> []" using "1.prems" True by (intro ready_exists)
    have sub: "C \<union> set (map name ?r) \<subseteq> set (map name T)"
      using "1.prems"(4) ready_names_subset[of T C] by blast
    from "1.IH"[OF True ne "1.prems"(1-3) sub]
    show ?thesis using True ne by (simp add: resolve_loop.simps[of T C B])
  qed
qed

lemma layered_Nil: "layered T []"
  by (simp add: layered_def)

lemma resolve_dependencies_layered:
  assumes "resolve_dependencies T = Inr R"
  shows "layered T R" "length T \<le> card (set (map name (concat R)))"
  using resolve_loop_layered[of T "{}" "[]" R] assms
  by (simp_all add: resolve_dependencies_def layered_Nil)

lemma resolve_loop_error:
  "resolve_loop T C B = Inl e \<Longrightarrow> e = ValueError circular_msg"
proof (induction T C B rule: resolve_loop.induct)
  case (1 T C B)
  show ?case
  proof (cases "card C < length T")
    case False
    then have "resolve_loop T C B = Inr B" by (subst resolve_loop.simps) simp
    then show ?thesis using "1.prems" by simp
  next
    case True
    show ?thesis
    proof (cases "ready_tasks T C = []")
      case e: True
      have "resolve_loop T C B = Inl (ValueError circular_msg)"
        using True e by (subst resolve_loop.simps) simp
      then show ?thesis using "1.prems" by simp
    next
      case ne: False
      have "resolve_loop T C B =
            resolve_loop T (C \<union> set (map name (ready_tasks T C))) (B @ [ready_tasks T C])"
        using True ne by (subst resolve_loop.simps) simp
      then show ?thesis using "1.IH"[OF True ne] "1.prems" by simp
    qed
  qed
qed

text \<open>A successful resolution certifies distinct names and an acyclic relation.\<close>

lemma resolved_distinct_acyclic:
  assumes "resolve_dependencies T = Inr R"
  shows "distinct (map name T)" "acyclic (dep_rel T)"
proof -
  note lay = resolve_dependencies_layered[OF assms]
  let ?N = "set (map name T)"
  have sub: "set (concat R) \<subseteq> set T" using lay(1) by (rule layered_subset)
  then have nsub: "set (map name (concat R)) \<subseteq> ?N" by auto
  then have "card (set (map name (concat R))) \<le> card ?N" by (intro card_mono) auto
  then have "length (map name T) \<le> card ?N" using lay(2) by simp
  moreover have "card ?N \<le> length (map name T)" by (rule card_length)
  ultimately have cN: "card ?N = length (map name T)" by simp
  then show dist: "distinct (map name T)" by (rule card_distinct)
  have ms: "mset (concat R) = mset T" by (rule layered_complete[OF lay(1) dist lay(2)])
  then have seq: "set (concat R) = set T" by (rule mset_eq_setD)
  define rank where "rank x = (LEAST i. x \<in> placed_before R (Suc i))" for x
  have "rank d < rank (name t)" if t: "t \<in> set T" and d: "d \<in> set (dependencies t)" for t d
  proof -
    from t seq obtain b where "b \<in> set R" "t \<in> set b" by auto
    then obtain i where i: "i < length R" "t \<in> set (R ! i)" by (auto simp: in_set_conv_nth)
    have notin: "name t \<notin> placed_before R i" using layered_batch(2)[OF lay(1) i] .
    have "name t \<in> placed_before R (Suc i)" using i by (auto simp: placed_before_Suc)
    then have r1: "name t \<in> placed_before R (Suc (rank (name t)))"
      unfolding rank_def by (rule LeastI)
    have "i \<le> rank (name t)"
    proof (rule ccontr)
      assume "\<not> i \<le> rank (name t)"
      then have "Suc (rank (name t)) \<le> i" by simp
      then have "placed_before R (Suc (rank (name t))) \<subseteq> placed_before R i"
        by (rule placed_before_mono)
      then show False using r1 notin by blast
    qed
    moreover have "rank d < i"
    proof -
      have "d \<in> placed_before R i" using layered_batch(3)[OF lay(1) i] d by auto
      then obtain j where j: "j < i" "j < length R" "d \<in> name ` set (R ! j)"
        unfolding placed_before_iff by blast
      then have "d \<in> placed_before R (Suc j)" by (auto simp: placed_before_Suc)
      then have "rank d \<le> j" unfolding rank_def by (rule Least_le)
      then show ?thesis using j(1) by simp
    qed
    ultimately show ?thesis by simp
  qed
  then have "\<And>a b. (a, b) \<in> dep_rel T \<Longrightarrow> rank b < rank a"
    by (auto simp: dep_rel_def)
  then show "acyclic (dep_rel T)" by (rule acyclicI_order)
qed

subsection \<open>The batches of an acyclic task set\<close>

definition task_A :: TaskDefinition where
  "task_A = \<lparr>name = ''A'', command = ''echo a'', prompt = '''', dependencies = [], timeout = 300\<rparr>"
definition task_B :: TaskDefinition where
  "task_B = \<lparr>name = ''B'', command = ''echo b'', prompt = '''', dependencies = [''A''], timeout = 300\<rparr>"
definition task_C :: TaskDefinition where
  "task_C = \<lparr>name = ''C'', command = ''echo c'', prompt = '''', dependencies = [''A''], timeout = 300\<rparr>"

lemma resolve_ABC:
  assumes "name A = ''A''" "dependencies A = []" "name B = ''B''" "dependencies B = [''A'']"
    "name C = ''C''" "dependencies C = [''A'']"
  shows "resolve_dependencies [A, B, C] = Inr [[A], [B, C]]"
  using assms by (simp add: resolve_dependencies_def ready_tasks_def)

lemma layered_exactly_one_batch:
  assumes "layered T R" "mset (concat R) = mset T" "t \<in> set T"
  shows "\<exists>!i. i < length R \<and> t \<in> set (R ! i)"
proof -
  have "t \<in> set (concat R)" using assms(2,3) mset_eq_setD by blast
  then obtain b where "b \<in> set R" "t \<in> set b" by auto
  then obtain i where i: "i < length R" "t \<in> set (R ! i)" by (auto simp: in_set_conv_nth)
  moreover have "j = i" if "j < length R" "t \<in> set (R ! j)" for j
    using layered_unique_batch[OF assms(1) that(1) i(1) that(2) i(2)] by simp
  ultimately show ?thesis by blast
qed

text \<open>
  Claim C4. For a task list with pairwise distinct names (a task set), known dependency
  names and an acyclic dependency relation, the resolver returns batches \<open>R\<close>: their
  concatenation is a permutation of the task list, every task is in exactly one batch,
  every dependency of a task lies in a batch of strictly smaller index, the batch of a
  task is the first index at which all its dependencies are placed, and every batch lists
  its tasks in input order. Tasks \<open>A\<close>, \<open>B\<close> (depends on \<open>A\<close>), \<open>C\<close> (depends on \<open>A\<close>)
  resolve to \<open>[[A], [B, C]]\<close>.
\<close>

theorem resolve_dependencies_batches:
  assumes "distinct (map name T)" and "valid_deps T" and "acyclic (dep_rel T)"
  shows "\<exists>R. resolve_dependencies T = Inr R
           \<and> mset (concat R) = mset T
           \<and> (\<forall>t \<in> set T. \<exists>!i. i < length R \<and> t \<in> set (R ! i))
           \<and> (\<forall>i < length R. \<forall>t \<in> set (R ! i). \<forall>d \<in> set (dependencies t).
                 \<exists>j < i. d \<in> name ` set (R ! j))
           \<and> (\<forall>i < length R. \<forall>t \<in> set (R ! i).
                 set (dependencies t) \<subseteq> placed_before R i
                 \<and> (\<forall>k < i. \<not> set (dependencies t) \<subseteq> placed_before R k))
           \<and> (\<forall>i < length R. R ! i = filter (\<lambda>t. t \<in> set (R ! i)) T)
           \<and> (\<forall>A B C. name A = ''A'' \<and> dependencies A = [] \<and> name B = ''B''
                 \<and> dependencies B = [''A''] \<and> name C = ''C'' \<and> dependencies C = [''A'']
                 \<longrightarrow> resolve_dependencies [A, B, C] = Inr [[A], [B, C]])"
proof -
  have "\<exists>R. resolve_loop T {} [] = Inr R"
    by (rule resolve_loop_succeeds[OF assms]) simp
  then obtain R where R: "resolve_dependencies T = Inr R"
    unfolding resolve_dependencies_def by (rule exE)
  note lay = resolve_dependencies_layered[OF R]
  have ms: "mset (concat R) = mset T" by (rule layered_complete[OF lay(1) assms(1) lay(2)])
  have one: "\<forall>t \<in> set T. \<exists>!i. i < length R \<and> t \<in> set (R ! i)"
    by (intro ballI) (rule layered_exactly_one_batch[OF lay(1) ms])
  have deps: "\<forall>i < length R. \<forall>t \<in> set (R ! i). \<forall>d \<in> set (dependencies t).
                 \<exists>j < i. d \<in> name ` set (R ! j)"
    by (intro allI impI ballI) (rule layered_deps_earlier[OF lay(1)])
  have early: "\<forall>i < length R. \<forall>t \<in> set (R ! i).
                 set (dependencies t) \<subseteq> placed_before R i
                 \<and> (\<forall>k < i. \<not> set (dependencies t) \<subseteq> placed_before R k)"
  proof (intro allI impI ballI conjI)
    fix i t assume "i < length R" "t \<in> set (R ! i)"
    then show "set (dependencies t) \<subseteq> placed_before R i"
      by (rule layered_batch(3)[OF lay(1)])
  next
    fix i t k assume "i < length R" "t \<in> set (R ! i)" "k < i"
    then show "\<not> set (dependencies t) \<subseteq> placed_before R k"
      by (rule layered_earliest[OF lay(1)])
  qed
  have ord: "\<forall>i < length R. R ! i = filter (\<lambda>t. t \<in> set (R ! i)) T"
    by (intro allI impI) (rule layered_input_order[OF lay(1)])
  have ex: "\<forall>A B C. name A = ''A'' \<and> dependencies A = [] \<and> name B = ''B''
                 \<and> dependencies B = [''A''] \<and> name C = ''C'' \<and> dependencies C = [''A'']
                 \<longrightarrow> resolve_dependencies [A, B, C] = Inr [[A], [B, C]]"
    by (intro allI impI) (elim conjE, rule resolve_ABC)
  show ?thesis
    by (rule exI[of _ R]) (intro conjI R ms one deps early ord ex)
qed

lemma dep_rel_ABC: "dep_rel [task_A, task_B, task_C] \<subseteq> {(''B'', ''A''), (''C'', ''A'')}"
  by (auto simp: dep_rel_def task_A_def task_B_def task_C_def)

lemma acyclic_ABC: "acyclic (dep_rel [task_A, task_B, task_C])"
proof (rule acyclicI_order)
  fix a b assume "(a, b) \<in> dep_rel [task_A, task_B, task_C]"
  then show "(if b = ''A'' then 0 else 1 :: nat) < (if a = ''A'' then 0 else 1)"
    using dep_rel_ABC by auto
qed

theorem resolve_dependencies_batches_witness:
  "distinct (map name [task_A, task_B, task_C])
   \<and> valid_deps [task_A, task_B, task_C]
   \<and> acyclic (dep_rel [task_A, task_B, task_C])
   \<and> resolve_dependencies [task_A, task_B, task_C] = Inr [[task_A], [task_B, task_C]]
   \<and> (\<exists>R. resolve_dependencies [task_A, task_B, task_C] = Inr R
         \<and> mset (concat R) = mset [task_A, task_B, task_C]
         \<and> (\<forall>i < length R. \<forall>t \<in> set (R ! i). \<forall>d \<in> set (dependencies t).
               \<exists>j < i. d \<in> name ` set (R ! j)))"
proof -
  have h1: "distinct (map name [task_A, task_B, task_C])"
    by (simp add: task_A_def task_B_def task_C_def)
  have h2: "valid_deps [task_A, task_B, task_C]"
    by (simp add: valid_deps_def task_A_def task_B_def task_C_def)
  note h3 = acyclic_ABC
  from resolve_dependencies_batches[OF h1 h2 h3] obtain R where
    R: "resolve_dependencies [task_A, task_B, task_C] = Inr R
        \<and> mset (concat R) = mset [task_A, task_B, task_C]
        \<and> (\<forall>t \<in> set [task_A, task_B, task_C]. \<exists>!i. i < length R \<and> t \<in> set (R ! i))
        \<and> (\<forall>i < length R. \<forall>t \<in> set (R ! i). \<forall>d \<in> set (dependencies t).
               \<exists>j < i. d \<in> name ` set (R ! j))
        \<and> (\<forall>i < length R. \<forall>t \<in> set (R ! i).
                 set (dependencies t) \<subseteq> placed_before R i
                 \<and> (\<forall>k < i. \<not> set (dependencies t) \<subseteq> placed_before R k))
        \<and> (\<forall>i < length R. R ! i = filter (\<lambda>t. t \<in> set (R ! i)) [task_A, task_B, task_C])
        \<and> (\<forall>A B C. name A = ''A'' \<and> dependencies A = [] \<and> name B = ''B''
                 \<and> dependencies B = [''A''] \<and> name C = ''C'' \<and> dependencies C = [''A'']
                 \<longrightarrow> resolve_dependencies [A, B, C] = Inr [[A], [B, C]])"
    by (rule exE)
  have r1: "resolve_dependencies [task_A, task_B, task_C] = Inr R" using R by (rule conjunct1)
  have r2: "mset (concat R) = mset [task_A, task_B, task_C]" using R by simp
  have r3: "\<forall>i < length R. \<forall>t \<in> set (R ! i). \<forall>d \<in> set (dependencies t).
               \<exists>j < i. d \<in> name ` set (R ! j)" using R by simp
  have ex: "\<forall>A B C. name A = ''A'' \<and> dependencies A = [] \<and> name B = ''B''
                 \<and> dependencies B = [''A''] \<and> name C = ''C'' \<and> dependencies C = [''A'']
                 \<longrightarrow> resolve_dependencies [A, B, C] = Inr [[A], [B, C]]" using R by simp
  have r0: "resolve_dependencies [task_A, task_B, task_C] = Inr [[task_A], [task_B, task_C]]"
    by (rule ex[rule_format]) (simp add: task_A_def task_B_def task_C_def)
  have "\<exists>R. resolve_dependencies [task_A, task_B, task_C] = Inr R
         \<and> mset (concat R) = mset [task_A, task_B, task_C]
         \<and> (\<forall>i < length R. \<forall>t \<in> set (R ! i). \<forall>d \<in> set (dependencies t).
               \<exists>j < i. d \<in> name ` set (R ! j))"
    by (rule exI[of _ R]) (intro conjI r1 r2 r3)
  then show ?thesis using h1 h2 h3 r0 by (intro conjI)
qed

subsection \<open>Validation lemmas\<close>

lemma validate_deps_of_Inr:
  "validate_deps_of N n ds = Inr u \<longleftrightarrow> set ds \<subseteq> N"
  by (induction ds) auto

lemma validate_deps_of_Inl:
  "validate_deps_of N n ds = Inl e \<Longrightarrow>
     \<exists>d \<in> set ds. d \<notin> N \<and> e = ValueError (unknown_dependency_msg n d)"
  by (induction ds) (auto split: if_splits)

lemma validate_deps_of_Inl_iff:
  "(\<exists>e. validate_deps_of N n ds = Inl e) \<longleftrightarrow> \<not> set ds \<subseteq> N"
  by (induction ds) auto

lemma validate_tasks_Inr:
  "validate_tasks N ts = Inr u \<longleftrightarrow> (\<forall>t \<in> set ts. set (dependencies t) \<subseteq> N)"
proof (induction ts)
  case Nil
  then show ?case by simp
next
  case (Cons t ts)
  show ?case
  proof (cases "validate_deps_of N (name t) (dependencies t)")
    case (Inl e)
    then have "\<not> set (dependencies t) \<subseteq> N" using validate_deps_of_Inl_iff by blast
    then show ?thesis using Inl by simp
  next
    case (Inr v)
    then have "set (dependencies t) \<subseteq> N" by (simp add: validate_deps_of_Inr)
    then show ?thesis using Inr Cons.IH by simp
  qed
qed

lemma validate_tasks_Inl:
  "validate_tasks N ts = Inl e \<Longrightarrow>
     \<exists>t \<in> set ts. \<exists>d \<in> set (dependencies t). d \<notin> N
        \<and> e = ValueError (unknown_dependency_msg (name t) d)"
proof (induction ts)
  case Nil
  then show ?case by simp
next
  case (Cons t ts)
  show ?case
  proof (cases "validate_deps_of N (name t) (dependencies t)")
    case (Inl e')
    then have "e' = e" using Cons.prems by simp
    then show ?thesis using validate_deps_of_Inl[OF Inl] by auto
  next
    case (Inr u)
    then have "validate_tasks N ts = Inl e" using Cons.prems by simp
    then show ?thesis using Cons.IH by auto
  qed
qed

lemma validate_dependencies_ok: "validate_dependencies T = Inr () \<longleftrightarrow> valid_deps T"
  by (auto simp: validate_dependencies_def validate_tasks_Inr valid_deps_def)

section \<open>The SQLite event store (event\_store\_v2.py)\<close>

subsection \<open>Enumerations and rows\<close>

datatype EventType =
  START | PROGRESS | ARTIFACT | ERROR | DONE | MERGE_READY | HEARTBEAT | BLOCKED | UNBLOCKED

fun EventType_value :: "EventType \<Rightarrow> string" where
  "EventType_value START = ''start''"
| "EventType_value PROGRESS = ''progress''"
| "EventType_value ARTIFACT = ''artifact''"
| "EventType_value ERROR = ''error''"
| "EventType_value DONE = ''done''"
| "EventType_value MERGE_READY = ''merge_ready''"
| "EventType_value HEARTBEAT = ''heartbeat''"
| "EventType_value BLOCKED = ''blocked''"
| "EventType_value UNBLOCKED = ''unblocked''"

datatype WorkerState = WS_IDLE | WS_BUSY | WS_BLOCKED | WS_ERROR | WS_DONE | WS_DEAD

fun WorkerState_value :: "WorkerState \<Rightarrow> string" where
  "WorkerState_value WS_IDLE = ''idle''"
| "WorkerState_value WS_BUSY = ''busy''"
| "WorkerState_value WS_BLOCKED = ''blocked''"
| "WorkerState_value WS_ERROR = ''error''"
| "WorkerState_value WS_DONE = ''done''"
| "WorkerState_value WS_DEAD = ''dead''"

text \<open>JSON scalars, enough for the payloads the sources write.\<close>

datatype json = JNull | JBool bool | JInt int | JStr string

type_synonym payload = "(string \<times> json) list"

text \<open>
  Timestamps are whole seconds since the epoch; fractions of a second are dropped, as
  \<^verbatim>\<open>CURRENT_TIMESTAMP\<close>, \<^verbatim>\<open>datetime('now')\<close> and \<^verbatim>\<open>datetime(expires_at)\<close> drop them.
  The program reads two clocks. The SQL clocks \<^verbatim>\<open>CURRENT_TIMESTAMP\<close> and
  \<^verbatim>\<open>datetime('now')\<close> give UTC; every operation below takes their reading as its
  argument \<open>now\<close>. Python's \<^verbatim>\<open>datetime.now()\<close> gives the local time of the host as
  a naive value, which \<^verbatim>\<open>isoformat()\<close> writes without an offset and
  \<^verbatim>\<open>datetime(expires_at)\<close> reads back as it stands; \<open>create_block\<close>, the one
  operation that calls it, takes that reading as a second argument \<open>local_now\<close>.
\<close>

record event_row =
  e_id :: nat
  e_timestamp :: int
  e_run_id :: string
  e_worker_id :: "string option"
  e_event_type :: string
  e_task_id :: "string option"
  e_payload :: "payload option"

record worker_row =
  w_id :: string
  w_run_id :: string
  w_task_id :: "string option"
  w_state :: string
  w_pid :: "int option"
  w_started_at :: "int option"
  w_last_heartbeat :: "int option"
  w_progress :: "int option"
  w_last_message :: "string option"

record task_row =
  t_id :: string
  t_run_id :: string
  t_description :: "string option"
  t_state :: "string option"
  t_assigned_worker :: "string option"
  t_created_at :: "int option"
  t_completed_at :: "int option"

record block_row =
  b_id :: nat
  b_worker_id :: string
  b_hook_event :: string
  b_created_at :: int
  b_expires_at :: int
  b_reason :: "string option"
  b_retry_count :: int
  b_max_retries :: int

text \<open>
  The tables, in rowid order, and the two \<^verbatim>\<open>AUTOINCREMENT\<close> counters (the largest id
  ever handed out).
\<close>

record store =
  events :: "event_row list"
  workers :: "worker_row list"
  tasks :: "task_row list"
  blocks :: "block_row list"
  events_seq :: nat
  blocks_seq :: nat

subsection \<open>The connection: autocommit, explicit transactions, failing statements\<close>

text \<open>
  The connection is opened with \<^verbatim>\<open>isolation_level=None\<close>: a statement outside a
  transaction commits at once, \<^verbatim>\<open>BEGIN\<close> opens a working copy that \<^verbatim>\<open>COMMIT\<close>
  installs and \<^verbatim>\<open>ROLLBACK\<close> drops. \<open>db\<close> is the committed database, \<open>txn\<close> the
  working copy of the open transaction. Any \<^verbatim>\<open>conn.execute\<close> may raise: \<open>faults\<close>
  lists the statements (counted by \<open>stmts\<close> in execution order) at which the engine
  raises \<^verbatim>\<open>sqlite3.OperationalError\<close>.
\<close>

record conn =
  db :: store
  txn :: "store option"
  stmts :: nat
  faults :: "nat list"

type_synonym 'a db_action = "conn \<Rightarrow> (py_error + 'a) \<times> conn"

definition db_return :: "'a \<Rightarrow> 'a db_action" where
  "db_return v c = (Inr v, c)"

definition db_raise :: "py_error \<Rightarrow> 'a db_action" where
  "db_raise e c = (Inl e, c)"

definition db_bind :: "'a db_action \<Rightarrow> ('a \<Rightarrow> 'b db_action) \<Rightarrow> 'b db_action" where
  "db_bind m f c = (case m c of (Inl e, c') \<Rightarrow> (Inl e, c') | (Inr v, c') \<Rightarrow> f v c')"

definition tick :: "conn \<Rightarrow> conn" where
  "tick c = c\<lparr>stmts := Suc (stmts c)\<rparr>"

definition faulty :: "conn \<Rightarrow> bool" where
  "faulty c = (stmts c \<in> set (faults c))"

text \<open>\<^verbatim>\<open>conn.execute(sql, params)\<close> for a statement with the given effect on the tables.\<close>

definition execute :: "(store \<Rightarrow> 'a \<times> store) \<Rightarrow> 'a db_action" where
  "execute stmt c =
     (if faulty c then (Inl (OperationalError ''statement failed''), tick c)
      else (case txn c of
              Some s \<Rightarrow> (case stmt s of (v, s') \<Rightarrow> (Inr v, (tick c)\<lparr>txn := Some s'\<rparr>))
            | None \<Rightarrow> (case stmt (db c) of (v, s') \<Rightarrow> (Inr v, (tick c)\<lparr>db := s'\<rparr>))))"

definition sql_begin :: "unit db_action" where
  "sql_begin c =
     (if faulty c then (Inl (OperationalError ''statement failed''), tick c)
      else (case txn c of
              Some s \<Rightarrow> (Inl (OperationalError ''cannot start a transaction within a transaction''),
                         tick c)
            | None \<Rightarrow> (Inr (), (tick c)\<lparr>txn := Some (db c)\<rparr>)))"

definition sql_commit :: "unit db_action" where
  "sql_commit c =
     (if faulty c then (Inl (OperationalError ''statement failed''), tick c)
      else (case txn c of
              Some s \<Rightarrow> (Inr (), (tick c)\<lparr>db := s, txn := None\<rparr>)
            | None \<Rightarrow> (Inl (OperationalError ''cannot commit - no transaction is active''),
                       tick c)))"

definition sql_rollback :: "unit db_action" where
  "sql_rollback c =
     (if faulty c then (Inl (OperationalError ''statement failed''), tick c)
      else (case txn c of
              Some s \<Rightarrow> (Inr (), (tick c)\<lparr>txn := None\<rparr>)
            | None \<Rightarrow> (Inl (OperationalError ''cannot rollback - no transaction is active''),
                       tick c)))"

text \<open>
  \<^verbatim>\<open>EventStoreV2.transaction\<close>: \<^verbatim>\<open>BEGIN\<close> before the \<^verbatim>\<open>try\<close>; the body and
  \<^verbatim>\<open>COMMIT\<close> inside it; on any exception \<^verbatim>\<open>ROLLBACK\<close> and re-raise (an exception of
  \<^verbatim>\<open>ROLLBACK\<close> itself replaces the one being handled).
\<close>

definition rollback_and_raise :: "py_error \<Rightarrow> 'a db_action" where
  "rollback_and_raise e c =
     (case sql_rollback c of (Inl e', c') \<Rightarrow> (Inl e', c') | (Inr _, c') \<Rightarrow> (Inl e, c'))"

definition transaction :: "'a db_action \<Rightarrow> 'a db_action" where
  "transaction body c =
     (case sql_begin c of
        (Inl e, c1) \<Rightarrow> (Inl e, c1)
      | (Inr _, c1) \<Rightarrow>
          (case body c1 of
             (Inl e, c2) \<Rightarrow> rollback_and_raise e c2
           | (Inr v, c2) \<Rightarrow>
               (case sql_commit c2 of
                  (Inl e, c3) \<Rightarrow> rollback_and_raise e c3
                | (Inr _, c3) \<Rightarrow> (Inr v, c3))))"

subsection \<open>\<^verbatim>\<open>append_event\<close>\<close>

text \<open>
  The parameter is annotated \<^verbatim>\<open>EventType\<close> and the body reads \<^verbatim>\<open>event_type.value\<close>.
  Python does not check the annotation: a caller may pass any object, and the callers in
  worker.py and orchestrator.py pass the string \<^verbatim>\<open>EventType.X.value\<close>. A \<^verbatim>\<open>str\<close> has
  no attribute \<^verbatim>\<open>value\<close>.
\<close>

datatype event_type_arg = Member EventType | Str string

fun value_attr :: "event_type_arg \<Rightarrow> py_error + string" where
  "value_attr (Member t) = Inr (EventType_value t)"
| "value_attr (Str s) = Inl (no_attribute ''str'' ''value'')"

text \<open>\<^verbatim>\<open>json.dumps(payload) if payload else None\<close>: an empty dict is stored as NULL.\<close>

definition payload_column :: "payload option \<Rightarrow> payload option" where
  "payload_column p = (case p of None \<Rightarrow> None | Some [] \<Rightarrow> None | Some kvs \<Rightarrow> Some kvs)"

definition insert_event ::
  "int \<Rightarrow> string \<Rightarrow> string option \<Rightarrow> string \<Rightarrow> string option \<Rightarrow> payload option
     \<Rightarrow> store \<Rightarrow> nat \<times> store" where
  "insert_event now run_id worker_id event_type task_id p s =
     (let rowid = Suc (events_seq s) in
      (rowid,
       s\<lparr>events := events s @
            [\<lparr>e_id = rowid, e_timestamp = now, e_run_id = run_id, e_worker_id = worker_id,
              e_event_type = event_type, e_task_id = task_id, e_payload = payload_column p\<rparr>],
         events_seq := rowid\<rparr>))"

definition append_event ::
  "int \<Rightarrow> event_type_arg \<Rightarrow> string \<Rightarrow> string option \<Rightarrow> string option \<Rightarrow> payload option
     \<Rightarrow> nat db_action" where
  "append_event now event_type run_id worker_id task_id p =
     transaction
       (case value_attr event_type of
          Inl e \<Rightarrow> db_raise e
        | Inr v \<Rightarrow> execute (insert_event now run_id worker_id v task_id p))"

subsection \<open>\<^verbatim>\<open>update_worker_status\<close>\<close>

definition select_worker_exists :: "string \<Rightarrow> store \<Rightarrow> bool \<times> store" where
  "select_worker_exists worker_id s = (list_ex (\<lambda>r. w_id r = worker_id) (workers s), s)"

text \<open>
  The \<^verbatim>\<open>UPDATE\<close>: the heartbeat always, every other column only when its argument is
  given (\<^verbatim>\<open>if state:\<close> is true of every enum member).
\<close>

definition update_worker_row ::
  "int \<Rightarrow> WorkerState option \<Rightarrow> int option \<Rightarrow> string option \<Rightarrow> string option
     \<Rightarrow> worker_row \<Rightarrow> worker_row" where
  "update_worker_row now state progress task_id message r =
     r\<lparr>w_last_heartbeat := Some now,
       w_state := (case state of Some st \<Rightarrow> WorkerState_value st | None \<Rightarrow> w_state r),
       w_progress := (case progress of Some p \<Rightarrow> Some p | None \<Rightarrow> w_progress r),
       w_task_id := (case task_id of Some t \<Rightarrow> Some t | None \<Rightarrow> w_task_id r),
       w_last_message := (case message of Some m \<Rightarrow> Some m | None \<Rightarrow> w_last_message r)\<rparr>"

definition update_worker ::
  "int \<Rightarrow> string \<Rightarrow> WorkerState option \<Rightarrow> int option \<Rightarrow> string option \<Rightarrow> string option
     \<Rightarrow> store \<Rightarrow> unit \<times> store" where
  "update_worker now worker_id state progress task_id message s =
     ((), s\<lparr>workers := map (\<lambda>r. if w_id r = worker_id
                                  then update_worker_row now state progress task_id message r
                                  else r) (workers s)\<rparr>)"

text \<open>The \<^verbatim>\<open>INSERT\<close>: state defaults to idle, \<^verbatim>\<open>progress or 0\<close>.\<close>

definition insert_worker ::
  "int \<Rightarrow> string \<Rightarrow> string \<Rightarrow> WorkerState option \<Rightarrow> int option \<Rightarrow> string option
     \<Rightarrow> string option \<Rightarrow> store \<Rightarrow> unit \<times> store" where
  "insert_worker now worker_id run_id state progress task_id message s =
     ((), s\<lparr>workers := workers s @
            [\<lparr>w_id = worker_id, w_run_id = run_id, w_task_id = task_id,
              w_state = (case state of Some st \<Rightarrow> WorkerState_value st
                                     | None \<Rightarrow> WorkerState_value WS_IDLE),
              w_pid = None, w_started_at = Some now, w_last_heartbeat = Some now,
              w_progress = Some (case progress of Some p \<Rightarrow> p | None \<Rightarrow> 0),
              w_last_message = message\<rparr>]\<rparr>)"

definition update_worker_status ::
  "int \<Rightarrow> string \<Rightarrow> string \<Rightarrow> WorkerState option \<Rightarrow> int option \<Rightarrow> string option
     \<Rightarrow> string option \<Rightarrow> unit db_action" where
  "update_worker_status now worker_id run_id state progress task_id message =
     transaction
       (db_bind (execute (select_worker_exists worker_id))
          (\<lambda>exists.
             if exists then execute (update_worker now worker_id state progress task_id message)
             else execute (insert_worker now worker_id run_id state progress task_id message)))"

subsection \<open>\<^verbatim>\<open>create_block\<close> and \<^verbatim>\<open>get_active_blocks\<close>\<close>

text \<open>
  \<^verbatim>\<open>SELECT retry_count ... WHERE worker_id = ? AND hook_event = ? ORDER BY created_at DESC
  LIMIT 1\<close>: a row of the pair with the greatest \<open>created_at\<close>; among rows created in the
  same second the model takes the first in rowid order.
\<close>

fun latest_block :: "block_row list \<Rightarrow> block_row option" where
  "latest_block [] = None"
| "latest_block (r # rs) =
     (case latest_block rs of
        None \<Rightarrow> Some r
      | Some r' \<Rightarrow> if b_created_at r' > b_created_at r then Some r' else Some r)"

definition select_latest_retry :: "string \<Rightarrow> string \<Rightarrow> store \<Rightarrow> int option \<times> store" where
  "select_latest_retry worker_id hook_event s =
     (map_option b_retry_count
        (latest_block
           (filter (\<lambda>r. b_worker_id r = worker_id \<and> b_hook_event r = hook_event) (blocks s))),
      s)"

text \<open>
  \<^verbatim>\<open>datetime.now() + timedelta(seconds=duration_seconds)\<close>. The constructor of
  \<^verbatim>\<open>timedelta\<close> normalises the seconds to days and refuses more than 999999999 days
  either way (a count of days beyond a C \<^verbatim>\<open>int\<close> is refused earlier, with another
  message); the sum is refused outside the years 1 to 9999. Both raise
  \<^verbatim>\<open>OverflowError\<close>.
\<close>

definition datetime_min :: int where
  "datetime_min = - 62135596800"

definition datetime_max :: int where
  "datetime_max = 253402300799"

definition timedelta_seconds :: "int \<Rightarrow> py_error + int" where
  "timedelta_seconds seconds =
     (let days = seconds div 86400 in
      if days < - 2147483648 \<or> days > 2147483647
        then Inl (OverflowError ''Python int too large to convert to C int'')
      else if days < - 999999999 \<or> days > 999999999
        then Inl (OverflowError (''days='' @ str_int days @ ''; must have magnitude <= 999999999''))
      else Inr seconds)"

definition datetime_add :: "int \<Rightarrow> int \<Rightarrow> py_error + int" where
  "datetime_add t delta =
     (if t + delta < datetime_min \<or> datetime_max < t + delta
        then Inl (OverflowError ''date value out of range'')
      else Inr (t + delta))"

definition expires_at_of :: "int \<Rightarrow> int \<Rightarrow> py_error + int" where
  "expires_at_of local_now duration_seconds =
     (case timedelta_seconds duration_seconds of
        Inl e \<Rightarrow> Inl e
      | Inr delta \<Rightarrow> datetime_add local_now delta)"

text \<open>The inserted row: \<open>created_at\<close> is the column default \<^verbatim>\<open>CURRENT_TIMESTAMP\<close>,
  \<open>expires_at\<close> the value computed by the caller.\<close>

definition new_block ::
  "nat \<Rightarrow> int \<Rightarrow> string \<Rightarrow> string \<Rightarrow> int \<Rightarrow> string \<Rightarrow> int \<Rightarrow> int \<Rightarrow> block_row" where
  "new_block rowid now worker_id hook_event expires_at reason retry_count max_retries =
     \<lparr>b_id = rowid, b_worker_id = worker_id, b_hook_event = hook_event, b_created_at = now,
      b_expires_at = expires_at, b_reason = Some reason,
      b_retry_count = retry_count, b_max_retries = max_retries\<rparr>"

definition insert_block ::
  "int \<Rightarrow> string \<Rightarrow> string \<Rightarrow> int \<Rightarrow> string \<Rightarrow> int \<Rightarrow> int \<Rightarrow> store \<Rightarrow> unit \<times> store" where
  "insert_block now worker_id hook_event expires_at reason retry_count max_retries s =
     ((), s\<lparr>blocks := blocks s @
              [new_block (Suc (blocks_seq s)) now worker_id hook_event expires_at reason
                 retry_count max_retries],
            blocks_seq := Suc (blocks_seq s)\<rparr>)"

definition next_retry_count :: "int option \<Rightarrow> int" where
  "next_retry_count row = (case row of Some retry_count \<Rightarrow> retry_count + 1 | None \<Rightarrow> 0)"

text \<open>
  The body of the \<^verbatim>\<open>with self.transaction()\<close> block: the \<^verbatim>\<open>SELECT\<close>, the early
  \<^verbatim>\<open>return False\<close>, the computation of \<open>expires_at\<close> from the local clock (which may
  raise), the \<^verbatim>\<open>INSERT\<close>.
\<close>

definition create_block_body ::
  "int \<Rightarrow> int \<Rightarrow> string \<Rightarrow> string \<Rightarrow> string \<Rightarrow> int \<Rightarrow> int \<Rightarrow> bool db_action" where
  "create_block_body now local_now worker_id hook_event reason duration_seconds max_retries =
     db_bind (execute (select_latest_retry worker_id hook_event))
       (\<lambda>row.
          if next_retry_count row \<ge> max_retries then db_return False
          else (case expires_at_of local_now duration_seconds of
                  Inl e \<Rightarrow> db_raise e
                | Inr expires_at \<Rightarrow>
                    db_bind
                      (execute (insert_block now worker_id hook_event expires_at reason
                                  (next_retry_count row) max_retries))
                      (\<lambda>_. db_return True)))"

definition create_block ::
  "int \<Rightarrow> int \<Rightarrow> string \<Rightarrow> string \<Rightarrow> string \<Rightarrow> int \<Rightarrow> int \<Rightarrow> bool db_action" where
  "create_block now local_now worker_id hook_event reason duration_seconds max_retries =
     transaction
       (create_block_body now local_now worker_id hook_event reason duration_seconds max_retries)"

text \<open>
  \<^verbatim>\<open>DELETE FROM blocks WHERE datetime(expires_at) < datetime('now')\<close> and the
  \<^verbatim>\<open>SELECT\<close> with \<^verbatim>\<open>datetime(expires_at) > datetime('now')\<close>: the stored
  \<open>expires_at\<close>, written from the local clock, is compared with the UTC reading \<open>now\<close>.
\<close>

definition delete_expired_blocks :: "int \<Rightarrow> store \<Rightarrow> unit \<times> store" where
  "delete_expired_blocks now s =
     ((), s\<lparr>blocks := filter (\<lambda>r. \<not> b_expires_at r < now) (blocks s)\<rparr>)"

text \<open>\<^verbatim>\<open>if hook_event:\<close> adds the filter for a non-empty string only.\<close>

definition select_active_blocks :: "int \<Rightarrow> string option \<Rightarrow> store \<Rightarrow> block_row list \<times> store" where
  "select_active_blocks now hook_event s =
     (filter (\<lambda>r. b_expires_at r > now \<and>
                  (case hook_event of
                     None \<Rightarrow> True
                   | Some h \<Rightarrow> h = [] \<or> b_hook_event r = h)) (blocks s),
      s)"

definition get_active_blocks :: "int \<Rightarrow> string option \<Rightarrow> block_row list db_action" where
  "get_active_blocks now hook_event =
     db_bind (execute (delete_expired_blocks now))
       (\<lambda>_. execute (select_active_blocks now hook_event))"

subsection \<open>\<^verbatim>\<open>get_ready_artifacts\<close>\<close>

text \<open>
  The values of the result column. \<^verbatim>\<open>json_extract(e.payload, '$.path')\<close> is SQL NULL
  for a NULL payload, a missing key or a JSON null; for a JSON \<^verbatim>\<open>true\<close> or
  \<^verbatim>\<open>false\<close> it is the integer 1 or 0, for a JSON number the number, for a JSON string
  its text.
\<close>

datatype sql_value = SqlInteger int | SqlText string

fun json_to_sql :: "json \<Rightarrow> sql_value option" where
  "json_to_sql JNull = None"
| "json_to_sql (JBool b) = Some (SqlInteger (if b then 1 else 0))"
| "json_to_sql (JInt i) = Some (SqlInteger i)"
| "json_to_sql (JStr s) = Some (SqlText s)"

definition json_extract_path :: "payload option \<Rightarrow> sql_value option" where
  "json_extract_path p =
     (case p of
        None \<Rightarrow> None
      | Some kvs \<Rightarrow> (case map_of kvs ''path'' of
                       None \<Rightarrow> None
                     | Some v \<Rightarrow> json_to_sql v))"

text \<open>
  The join \<^verbatim>\<open>events e JOIN tasks t ON e.task_id = t.id\<close> with the \<^verbatim>\<open>WHERE\<close> clause:
  the event is an artifact event of the run whose task row is in state
  \<^verbatim>\<open>'completed'\<close>. \<^verbatim>\<open>tasks.id\<close> is the primary key, so an event joins at most one row.
\<close>

definition artifact_of_completed_task :: "string \<Rightarrow> store \<Rightarrow> event_row \<Rightarrow> bool" where
  "artifact_of_completed_task run_id s e =
     (e_event_type e = ''artifact'' \<and> e_run_id e = run_id \<and>
      list_ex (\<lambda>t. e_task_id e = Some (t_id t) \<and> t_state t = Some ''completed'') (tasks s))"

text \<open>\<^verbatim>\<open>SELECT DISTINCT\<close>: each value once, at the place of its first occurrence in the
  scan of the events.\<close>

definition sql_distinct :: "'a list \<Rightarrow> 'a list" where
  "sql_distinct xs = rev (remdups (rev xs))"

definition select_ready_artifacts :: "string \<Rightarrow> store \<Rightarrow> sql_value list \<times> store" where
  "select_ready_artifacts run_id s =
     (sql_distinct
        (List.map_filter (\<lambda>e. json_extract_path (e_payload e))
           (filter (artifact_of_completed_task run_id s) (events s))),
      s)"

definition get_ready_artifacts :: "string \<Rightarrow> sql_value list db_action" where
  "get_ready_artifacts run_id = execute (select_ready_artifacts run_id)"

subsection \<open>Transactions are atomic\<close>

text \<open>
  A body that runs inside an open transaction and touches the tables only through
  \<open>execute\<close> leaves the committed database alone and the transaction open.
\<close>

definition inside_txn :: "'a db_action \<Rightarrow> bool" where
  "inside_txn body =
     (\<forall>c. txn c \<noteq> None \<longrightarrow> db (snd (body c)) = db c \<and> txn (snd (body c)) \<noteq> None)"

lemma inside_txn_execute: "inside_txn (execute stmt)"
  by (auto simp: inside_txn_def execute_def tick_def split: prod.splits)

lemma inside_txn_return: "inside_txn (db_return v)"
  by (simp add: inside_txn_def db_return_def)

lemma inside_txn_raise: "inside_txn (db_raise e)"
  by (simp add: inside_txn_def db_raise_def)

lemma inside_txn_bind:
  assumes "inside_txn m" "\<And>v. inside_txn (f v)"
  shows "inside_txn (db_bind m f)"
  unfolding inside_txn_def
proof (intro allI impI)
  fix c :: conn assume c: "txn c \<noteq> None"
  obtain r c1 where m: "m c = (r, c1)" by (cases "m c")
  have c1: "db c1 = db c" "txn c1 \<noteq> None"
    using assms(1) c m by (auto simp: inside_txn_def dest: spec[of _ c])
  show "db (snd (db_bind m f c)) = db c \<and> txn (snd (db_bind m f c)) \<noteq> None"
  proof (cases r)
    case (Inl e)
    then show ?thesis using m c1 by (simp add: db_bind_def)
  next
    case (Inr v)
    have "db (snd (f v c1)) = db c1 \<and> txn (snd (f v c1)) \<noteq> None"
      using assms(2)[of v] c1(2) by (simp add: inside_txn_def)
    then show ?thesis using m Inr c1 by (simp add: db_bind_def)
  qed
qed

lemma sql_rollback_db: "db (snd (sql_rollback c)) = db c"
  by (simp add: sql_rollback_def tick_def split: option.splits)

lemma rollback_and_raise_result:
  "\<exists>e' c'. rollback_and_raise e c = (Inl e', c') \<and> db c' = db c"
proof (cases "sql_rollback c")
  case (Pair r c')
  have "db c' = db c" using sql_rollback_db[of c] Pair by simp
  then show ?thesis using Pair by (cases r) (simp_all add: rollback_and_raise_def)
qed

text \<open>Either the transaction raises and the committed database is as before, or it
  returns the body's value and the committed database is the body's working copy.\<close>

lemma transaction_cases:
  assumes "inside_txn body"
  shows "(\<exists>e c'. transaction body c = (Inl e, c') \<and> db c' = db c)
       \<or> (\<exists>v c2 s c'. transaction body c = (Inr v, c') \<and> txn c = None \<and> \<not> faulty c
             \<and> body ((tick c)\<lparr>txn := Some (db c)\<rparr>) = (Inr v, c2) \<and> txn c2 = Some s
             \<and> db c' = s \<and> txn c' = None)"
proof (cases "faulty c \<or> txn c \<noteq> None")
  case True
  then have "\<exists>e. transaction body c = (Inl e, tick c)"
    by (auto simp: transaction_def sql_begin_def split: option.splits)
  then show ?thesis by (auto simp: tick_def)
next
  case False
  let ?c1 = "(tick c)\<lparr>txn := Some (db c)\<rparr>"
  have b: "sql_begin c = (Inr (), ?c1)" using False by (simp add: sql_begin_def)
  obtain r c2 where body: "body ?c1 = (r, c2)" by (cases "body ?c1")
  have c2: "db c2 = db c" "txn c2 \<noteq> None"
    using assms body by (auto simp: inside_txn_def tick_def dest: spec[of _ ?c1])
  show ?thesis
  proof (cases r)
    case (Inl e)
    then have "transaction body c = rollback_and_raise e c2"
      using b body by (simp add: transaction_def)
    then show ?thesis using rollback_and_raise_result[of e c2] c2 by auto
  next
    case (Inr v)
    from c2(2) obtain s where s: "txn c2 = Some s" by auto
    show ?thesis
    proof (cases "faulty c2")
      case True
      then have "transaction body c =
                 rollback_and_raise (OperationalError ''statement failed'') (tick c2)"
        using b body Inr by (simp add: transaction_def sql_commit_def)
      then show ?thesis
        using rollback_and_raise_result[of "OperationalError ''statement failed''" "tick c2"] c2
        by (auto simp: tick_def)
    next
      case nf: False
      then have "transaction body c = (Inr v, (tick c2)\<lparr>db := s, txn := None\<rparr>)"
        using b body Inr s by (simp add: transaction_def sql_commit_def)
      then show ?thesis using False body Inr s by simp
    qed
  qed
qed

subsection \<open>A raising transaction is rolled back\<close>

text \<open>
  A body keeps the list of failing statements and never counts statements backwards; it
  is fault-driven when, moreover, it raises only because one of its own statements
  failed.
\<close>

definition keeps_faults :: "'a db_action \<Rightarrow> bool" where
  "keeps_faults body =
     (\<forall>c. faults (snd (body c)) = faults c \<and> stmts c \<le> stmts (snd (body c)))"

definition fault_driven :: "'a db_action \<Rightarrow> bool" where
  "fault_driven body =
     (\<forall>c. isl (fst (body c)) \<longrightarrow>
           (\<exists>i \<in> set (faults c). stmts c \<le> i \<and> i < stmts (snd (body c))))"

lemma keeps_faults_execute: "keeps_faults (execute stmt)"
  by (auto simp: keeps_faults_def execute_def tick_def split: prod.splits option.splits)

lemma keeps_faults_return: "keeps_faults (db_return v)"
  by (simp add: keeps_faults_def db_return_def)

lemma keeps_faults_raise: "keeps_faults (db_raise e)"
  by (simp add: keeps_faults_def db_raise_def)

lemma keeps_faults_bind:
  assumes "keeps_faults m" "\<And>v. keeps_faults (f v)"
  shows "keeps_faults (db_bind m f)"
  unfolding keeps_faults_def
proof
  fix c :: conn
  obtain r c1 where m: "m c = (r, c1)" by (cases "m c")
  have c1: "faults c1 = faults c" "stmts c \<le> stmts c1"
    using assms(1) m by (auto simp: keeps_faults_def dest: spec[of _ c])
  show "faults (snd (db_bind m f c)) = faults c \<and> stmts c \<le> stmts (snd (db_bind m f c))"
  proof (cases r)
    case (Inl e)
    then show ?thesis using m c1 by (simp add: db_bind_def)
  next
    case (Inr v)
    have "faults (snd (f v c1)) = faults c1 \<and> stmts c1 \<le> stmts (snd (f v c1))"
      using assms(2)[of v] by (simp add: keeps_faults_def)
    then show ?thesis using m Inr c1 by (simp add: db_bind_def)
  qed
qed

lemma fault_driven_execute: "fault_driven (execute stmt)"
  by (auto simp: fault_driven_def execute_def tick_def faulty_def split: prod.splits option.splits)

lemma fault_driven_return: "fault_driven (db_return v)"
  by (simp add: fault_driven_def db_return_def)

lemma fault_driven_bind:
  assumes "fault_driven m" "keeps_faults m" "\<And>v. fault_driven (f v)" "\<And>v. keeps_faults (f v)"
  shows "fault_driven (db_bind m f)"
  unfolding fault_driven_def
proof (intro allI impI)
  fix c :: conn
  assume raised: "isl (fst (db_bind m f c))"
  obtain r c1 where m: "m c = (r, c1)" by (cases "m c")
  have c1: "faults c1 = faults c" "stmts c \<le> stmts c1"
    using assms(2) m by (auto simp: keeps_faults_def dest: spec[of _ c])
  show "\<exists>i \<in> set (faults c). stmts c \<le> i \<and> i < stmts (snd (db_bind m f c))"
  proof (cases r)
    case (Inl e)
    then have "isl (fst (m c))" using m by simp
    then obtain i where "i \<in> set (faults c)" "stmts c \<le> i" "i < stmts (snd (m c))"
      using assms(1) by (auto simp: fault_driven_def)
    then show ?thesis using m Inl by (auto simp: db_bind_def)
  next
    case (Inr v)
    have eq: "db_bind m f c = f v c1" using m Inr by (simp add: db_bind_def)
    then have "isl (fst (f v c1))" using raised by simp
    then obtain i where "i \<in> set (faults c1)" "stmts c1 \<le> i" "i < stmts (snd (f v c1))"
      using assms(3)[of v] by (auto simp: fault_driven_def)
    then have "i \<in> set (faults c)" "stmts c \<le> i" "i < stmts (snd (db_bind m f c))"
      using c1 eq by auto
    then show ?thesis by blast
  qed
qed

text \<open>
  The \<^verbatim>\<open>except\<close> clause at work. When the \<^verbatim>\<open>ROLLBACK\<close> statement itself does not
  fail, a raising transaction leaves no transaction open on a connection that had none:
  the working copy with the body's writes is dropped. A connection that was inside a
  transaction already is refused by \<^verbatim>\<open>BEGIN\<close> and keeps that transaction.
\<close>

lemma sql_rollback_open:
  assumes "\<not> faulty c" "txn c \<noteq> None"
  shows "rollback_and_raise e c = (Inl e, (tick c)\<lparr>txn := None\<rparr>)"
  using assms by (auto simp: rollback_and_raise_def sql_rollback_def)

lemma transaction_begin_refused:
  assumes "faulty c \<or> txn c \<noteq> None"
  shows "\<exists>e. transaction body c = (Inl e, tick c)"
  using assms by (auto simp: transaction_def sql_begin_def split: option.splits)

lemma transaction_rolled_back:
  assumes it: "inside_txn body" and kf: "keeps_faults body"
    and one: "if fault_driven body then length (faults c) \<le> 1 else faults c = []"
    and raised: "transaction body c = (Inl e, c')"
  shows "txn c' = txn c"
proof (cases "faulty c \<or> txn c \<noteq> None")
  case True
  from transaction_begin_refused[OF True, of body] raised show ?thesis
    by (auto simp: tick_def)
next
  case False
  let ?c1 = "(tick c)\<lparr>txn := Some (db c)\<rparr>"
  have b: "sql_begin c = (Inr (), ?c1)" using False by (simp add: sql_begin_def)
  obtain r c2 where body: "body ?c1 = (r, c2)" by (cases "body ?c1")
  have open2: "txn c2 \<noteq> None"
    using it body by (auto simp: inside_txn_def tick_def dest: spec[of _ ?c1])
  have f2: "faults c2 = faults c" "Suc (stmts c) \<le> stmts c2"
    using kf body by (auto simp: keeps_faults_def tick_def dest: spec[of _ ?c1])
  show ?thesis
  proof (cases r)
    case (Inl e0)
    have nf: "\<not> faulty c2"
    proof (cases "fault_driven body")
      case True
      have "isl (fst (body ?c1))" using body Inl by simp
      then obtain i where i: "i \<in> set (faults ?c1)" "i < stmts (snd (body ?c1))"
        using True unfolding fault_driven_def by blast
      have "length (faults c) \<le> 1" using one True by simp
      then have "set (faults c) \<subseteq> {i}" using i(1)
        by (cases "faults c") (auto simp: tick_def)
      then show ?thesis using i(2) body f2(1) by (auto simp: faulty_def)
    next
      case False
      then have "faults c = []" using one by simp
      then show ?thesis using f2(1) by (simp add: faulty_def)
    qed
    have "transaction body c = rollback_and_raise e0 c2"
      using b body Inl by (simp add: transaction_def)
    then have "transaction body c = (Inl e0, (tick c2)\<lparr>txn := None\<rparr>)"
      using sql_rollback_open[OF nf open2, of e0] by simp
    then have "c' = (tick c2)\<lparr>txn := None\<rparr>" using raised by simp
    then show ?thesis using False by simp
  next
    case (Inr v)
    from open2 obtain s where s: "txn c2 = Some s" by auto
    show ?thesis
    proof (cases "faulty c2")
      case True
      have "length (faults c) \<le> 1" using one True f2(1)
        by (auto simp: faulty_def split: if_splits)
      then have "set (faults c) \<subseteq> {stmts c2}" using True f2(1)
        by (cases "faults c") (auto simp: faulty_def)
      then have nf: "\<not> faulty (tick c2)" using f2(1) by (auto simp: faulty_def tick_def)
      have op: "txn (tick c2) \<noteq> None" using open2 by (simp add: tick_def)
      have "transaction body c =
              rollback_and_raise (OperationalError ''statement failed'') (tick c2)"
        using b body Inr True by (simp add: transaction_def sql_commit_def)
      then have "transaction body c =
              (Inl (OperationalError ''statement failed''), (tick (tick c2))\<lparr>txn := None\<rparr>)"
        using sql_rollback_open[OF nf op, of "OperationalError ''statement failed''"] by simp
      then have "c' = (tick (tick c2))\<lparr>txn := None\<rparr>" using raised by simp
      then show ?thesis using False by simp
    next
      case nf: False
      then have "transaction body c = (Inr v, (tick c2)\<lparr>db := s, txn := None\<rparr>)"
        using b body Inr s by (simp add: transaction_def sql_commit_def)
      then show ?thesis using raised by simp
    qed
  qed
qed

lemma execute_Inr:
  assumes "execute stmt c = (Inr v, c')" "txn c = Some s"
  shows "v = fst (stmt s)" "txn c' = Some (snd (stmt s))"
  using assms by (auto simp: execute_def tick_def split: if_splits prod.splits)

lemma db_bind_Inr:
  assumes "db_bind m f c = (Inr v, c')"
  obtains u c1 where "m c = (Inr u, c1)" "f u c1 = (Inr v, c')"
proof (cases "m c")
  case (Pair r c1)
  show ?thesis
  proof (cases r)
    case (Inl e)
    then show ?thesis using assms Pair by (simp add: db_bind_def)
  next
    case (Inr u)
    then show ?thesis using assms Pair that by (simp add: db_bind_def)
  qed
qed

definition update_worker_status_body ::
  "int \<Rightarrow> string \<Rightarrow> string \<Rightarrow> WorkerState option \<Rightarrow> int option \<Rightarrow> string option
     \<Rightarrow> string option \<Rightarrow> unit db_action" where
  "update_worker_status_body now w run st p t m =
     db_bind (execute (select_worker_exists w))
       (\<lambda>exists. if exists then execute (update_worker now w st p t m)
                  else execute (insert_worker now w run st p t m))"

lemma update_worker_status_transaction:
  "update_worker_status now w run st p t m =
     transaction (update_worker_status_body now w run st p t m)"
  by (simp add: update_worker_status_def update_worker_status_body_def)

lemma inside_txn_update_worker_status_body:
  "inside_txn (update_worker_status_body now w run st p t m)"
  unfolding update_worker_status_body_def
  by (intro inside_txn_bind inside_txn_execute) (simp add: inside_txn_execute)

lemma keeps_faults_update_worker_status_body:
  "keeps_faults (update_worker_status_body now w run st p t m)"
  unfolding update_worker_status_body_def
  by (intro keeps_faults_bind keeps_faults_execute) (simp add: keeps_faults_execute)

lemma fault_driven_update_worker_status_body:
  "fault_driven (update_worker_status_body now w run st p t m)"
  unfolding update_worker_status_body_def
  by (intro fault_driven_bind fault_driven_execute keeps_faults_execute)
     (simp_all add: fault_driven_execute keeps_faults_execute)

lemma inside_txn_create_block_body:
  "inside_txn (create_block_body now local w h reason d maxr)"
  unfolding create_block_body_def
  by (intro inside_txn_bind inside_txn_execute)
     (simp add: inside_txn_bind inside_txn_execute inside_txn_return inside_txn_raise
        split: sum.splits)

lemma keeps_faults_create_block_body:
  "keeps_faults (create_block_body now local w h reason d maxr)"
  unfolding create_block_body_def
  by (intro keeps_faults_bind keeps_faults_execute)
     (simp add: keeps_faults_bind keeps_faults_execute keeps_faults_return keeps_faults_raise
        split: sum.splits)

lemma fault_driven_create_block_body:
  assumes "\<not> isl (expires_at_of local d)"
  shows "fault_driven (create_block_body now local w h reason d maxr)"
proof -
  obtain x where x: "expires_at_of local d = Inr x" using assms by (cases "expires_at_of local d") auto
  show ?thesis
    unfolding create_block_body_def x
    by (intro fault_driven_bind fault_driven_execute keeps_faults_execute)
       (simp_all add: fault_driven_bind fault_driven_execute fault_driven_return
          keeps_faults_bind keeps_faults_execute keeps_faults_return)
qed

text \<open>At most one thing goes wrong during the call: one failing statement, or (for
  \<open>create_block\<close>) an expiry that cannot be computed and no failing statement.\<close>

lemma update_worker_status_rolled_back:
  assumes "length (faults c) \<le> 1"
    and "update_worker_status now w run st p t m c = (Inl e, c')"
  shows "txn c' = txn c"
  using transaction_rolled_back[OF inside_txn_update_worker_status_body
      keeps_faults_update_worker_status_body, of now w run st p t m c e c'] assms
  by (simp add: fault_driven_update_worker_status_body update_worker_status_transaction)

lemma create_block_rolled_back:
  assumes "if isl (expires_at_of local d) then faults c = [] else length (faults c) \<le> 1"
    and "create_block now local w h reason d maxr c = (Inl e, c')"
  shows "txn c' = txn c"
proof -
  let ?body = "create_block_body now local w h reason d maxr"
  have "if fault_driven ?body then length (faults c) \<le> 1 else faults c = []"
    using assms(1) fault_driven_create_block_body[of local d now w h reason maxr]
    by (cases "isl (expires_at_of local d)") auto
  from transaction_rolled_back[OF inside_txn_create_block_body keeps_faults_create_block_body this]
  show ?thesis using assms(2) by (simp add: create_block_def)
qed

lemma update_worker_status_atomic:
  "(\<exists>e c'. update_worker_status now w run st p t m c = (Inl e, c') \<and> db c' = db c)
   \<or> (\<exists>c'. update_worker_status now w run st p t m c = (Inr (), c') \<and> txn c' = None
         \<and> txn c = None
         \<and> db c' = (if fst (select_worker_exists w (db c))
                     then snd (update_worker now w st p t m (db c))
                     else snd (insert_worker now w run st p t m (db c))))"
proof -
  let ?body = "update_worker_status_body now w run st p t m"
  have tr: "update_worker_status now w run st p t m = transaction ?body"
    by (rule update_worker_status_transaction)
  from transaction_cases[OF inside_txn_update_worker_status_body, of now w run st p t m c]
  show ?thesis
  proof
    assume "\<exists>e c'. transaction ?body c = (Inl e, c') \<and> db c' = db c"
    then show ?thesis using tr by simp
  next
    assume "\<exists>v c2 s c'. transaction ?body c = (Inr v, c') \<and> txn c = None \<and> \<not> faulty c
             \<and> ?body ((tick c)\<lparr>txn := Some (db c)\<rparr>) = (Inr v, c2) \<and> txn c2 = Some s
             \<and> db c' = s \<and> txn c' = None"
    then obtain v c2 s c' where r: "transaction ?body c = (Inr v, c')" "txn c = None"
      "?body ((tick c)\<lparr>txn := Some (db c)\<rparr>) = (Inr v, c2)" "txn c2 = Some s"
      "db c' = s" "txn c' = None" by blast
    from r(3) obtain ex c1 where
      e1: "execute (select_worker_exists w) ((tick c)\<lparr>txn := Some (db c)\<rparr>) = (Inr ex, c1)"
      and e2: "(if ex then execute (update_worker now w st p t m)
                else execute (insert_worker now w run st p t m)) c1 = (Inr v, c2)"
      unfolding update_worker_status_body_def by (rule db_bind_Inr)
    have t0: "txn ((tick c)\<lparr>txn := Some (db c)\<rparr>) = Some (db c)" by simp
    have ex: "ex = fst (select_worker_exists w (db c))" and c1: "txn c1 = Some (db c)"
      using execute_Inr[OF e1 t0] by (simp_all add: select_worker_exists_def)
    have "s = (if ex then snd (update_worker now w st p t m (db c))
               else snd (insert_worker now w run st p t m (db c)))"
    proof (cases ex)
      case True
      then have "execute (update_worker now w st p t m) c1 = (Inr v, c2)" using e2 by simp
      from execute_Inr(2)[OF this c1] show ?thesis using r(4) True by simp
    next
      case False
      then have "execute (insert_worker now w run st p t m) c1 = (Inr v, c2)" using e2 by simp
      from execute_Inr(2)[OF this c1] show ?thesis using r(4) False by simp
    qed
    then show ?thesis using r tr ex by auto
  qed
qed

text \<open>What an accepted call writes: the lease with the computed expiry.\<close>

definition create_block_effect ::
  "int \<Rightarrow> int \<Rightarrow> string \<Rightarrow> string \<Rightarrow> string \<Rightarrow> int \<Rightarrow> int \<Rightarrow> store \<Rightarrow> store" where
  "create_block_effect now local_now worker_id hook_event reason duration_seconds max_retries s =
     (case expires_at_of local_now duration_seconds of
        Inl e \<Rightarrow> s
      | Inr expires_at \<Rightarrow>
          snd (insert_block now worker_id hook_event expires_at reason
                 (next_retry_count (fst (select_latest_retry worker_id hook_event s)))
                 max_retries s))"

lemma create_block_atomic:
  "(\<exists>e c'. create_block now local w h reason d maxr c = (Inl e, c') \<and> db c' = db c)
   \<or> (\<exists>c'. create_block now local w h reason d maxr c
              = (Inr (next_retry_count (fst (select_latest_retry w h (db c))) < maxr), c')
         \<and> txn c' = None \<and> txn c = None
         \<and> (next_retry_count (fst (select_latest_retry w h (db c))) < maxr
              \<longrightarrow> \<not> isl (expires_at_of local d))
         \<and> db c' = (if next_retry_count (fst (select_latest_retry w h (db c))) < maxr
                     then create_block_effect now local w h reason d maxr (db c)
                     else db c))"
proof -
  let ?body = "create_block_body now local w h reason d maxr"
  let ?n = "next_retry_count (fst (select_latest_retry w h (db c)))"
  have tr: "create_block now local w h reason d maxr = transaction ?body"
    by (simp add: create_block_def)
  from transaction_cases[OF inside_txn_create_block_body, of now local w h reason d maxr c]
  show ?thesis
  proof
    assume "\<exists>e c'. transaction ?body c = (Inl e, c') \<and> db c' = db c"
    then show ?thesis using tr by simp
  next
    assume "\<exists>v c2 s c'. transaction ?body c = (Inr v, c') \<and> txn c = None \<and> \<not> faulty c
             \<and> ?body ((tick c)\<lparr>txn := Some (db c)\<rparr>) = (Inr v, c2) \<and> txn c2 = Some s
             \<and> db c' = s \<and> txn c' = None"
    then obtain v c2 s c' where r: "transaction ?body c = (Inr v, c')" "txn c = None"
      "?body ((tick c)\<lparr>txn := Some (db c)\<rparr>) = (Inr v, c2)" "txn c2 = Some s"
      "db c' = s" "txn c' = None" by blast
    from r(3) obtain row c1 where
      e1: "execute (select_latest_retry w h) ((tick c)\<lparr>txn := Some (db c)\<rparr>) = (Inr row, c1)"
      and e2: "(if next_retry_count row \<ge> maxr then db_return False
             else (case expires_at_of local d of
                     Inl e \<Rightarrow> db_raise e
                   | Inr x \<Rightarrow> db_bind (execute (insert_block now w h x reason
                                                  (next_retry_count row) maxr))
                                (\<lambda>_. db_return True))) c1 = (Inr v, c2)"
      unfolding create_block_body_def by (rule db_bind_Inr)
    have t0: "txn ((tick c)\<lparr>txn := Some (db c)\<rparr>) = Some (db c)" by simp
    have row: "row = fst (select_latest_retry w h (db c))" and c1: "txn c1 = Some (db c)"
      using execute_Inr[OF e1 t0] by (simp_all add: select_latest_retry_def)
    have "v = (?n < maxr) \<and> (?n < maxr \<longrightarrow> \<not> isl (expires_at_of local d))
          \<and> s = (if ?n < maxr then create_block_effect now local w h reason d maxr (db c)
                   else db c)"
    proof (cases "?n < maxr")
      case False
      then have "db_return False c1 = (Inr v, c2)" using e2 row by simp
      then show ?thesis using False r(4) c1 by (auto simp: db_return_def)
    next
      case True
      show ?thesis
      proof (cases "expires_at_of local d")
        case (Inl e)
        then have "db_raise e c1 = (Inr v, c2)" using e2 row True by simp
        then show ?thesis by (simp add: db_raise_def)
      next
        case (Inr x)
        then have "db_bind (execute (insert_block now w h x reason ?n maxr))
                      (\<lambda>_. db_return True) c1 = (Inr v, c2)" using e2 row True by simp
        then obtain u c1' where
          i: "execute (insert_block now w h x reason ?n maxr) c1 = (Inr u, c1')"
          and "db_return True c1' = (Inr v, c2)" by (rule db_bind_Inr)
        then have "v = True" "c2 = c1'" by (auto simp: db_return_def)
        then show ?thesis
          using execute_Inr(2)[OF i c1] r(4) True Inr by (simp add: create_block_effect_def)
      qed
    qed
    then show ?thesis using r tr by auto
  qed
qed

definition empty_store :: store where
  "empty_store = \<lparr>events = [], workers = [], tasks = [], blocks = [], events_seq = 0,
                   blocks_seq = 0\<rparr>"

definition open_conn :: "store \<Rightarrow> nat list \<Rightarrow> conn" where
  "open_conn s fs = \<lparr>db = s, txn = None, stmts = 0, faults = fs\<rparr>"

text \<open>
  Claim C9. Whatever statements fail, the worker-status upsert and the block
  read-then-insert either raise or return. When they raise, the committed database is as
  it was, and, when at most one thing went wrong during the call (one failing statement,
  or for \<open>create_block\<close> an expiry that cannot be computed and no failing statement), so
  is the transaction state of the connection: the transaction that the call opened has
  been rolled back, its writes dropped with it. When they return, no transaction is open
  and the committed database carries the whole effect of the mutation (the \<^verbatim>\<open>UPDATE\<close>
  of the existing row or the \<^verbatim>\<open>INSERT\<close> of a new one; the inserted lease, or nothing
  for a rejected block).
\<close>

theorem store_mutations_all_or_nothing:
  "(case update_worker_status now w run st p t m c of
      (Inl e, c') \<Rightarrow> db c' = db c \<and> (length (faults c) \<le> 1 \<longrightarrow> txn c' = txn c)
    | (Inr u, c') \<Rightarrow>
        txn c = None \<and> txn c' = None
        \<and> db c' = (if fst (select_worker_exists w (db c))
                    then snd (update_worker now w st p t m (db c))
                    else snd (insert_worker now w run st p t m (db c))))
   \<and> (case create_block now local w h reason d maxr c of
        (Inl e, c') \<Rightarrow>
          db c' = db c
          \<and> ((if isl (expires_at_of local d) then faults c = [] else length (faults c) \<le> 1)
               \<longrightarrow> txn c' = txn c)
      | (Inr accepted, c') \<Rightarrow>
          txn c = None \<and> txn c' = None
          \<and> accepted = (next_retry_count (fst (select_latest_retry w h (db c))) < maxr)
          \<and> db c' = (if accepted
                      then (case expires_at_of local d of
                              Inr expires_at \<Rightarrow>
                                snd (insert_block now w h expires_at reason
                                       (next_retry_count (fst (select_latest_retry w h (db c))))
                                       maxr (db c))
                            | Inl e \<Rightarrow> db c)
                      else db c)
          \<and> \<not> (accepted \<and> isl (expires_at_of local d)))"
proof
  show "case update_worker_status now w run st p t m c of
      (Inl e, c') \<Rightarrow> db c' = db c \<and> (length (faults c) \<le> 1 \<longrightarrow> txn c' = txn c)
    | (Inr u, c') \<Rightarrow>
        txn c = None \<and> txn c' = None
        \<and> db c' = (if fst (select_worker_exists w (db c))
                    then snd (update_worker now w st p t m (db c))
                    else snd (insert_worker now w run st p t m (db c)))"
    using update_worker_status_atomic[of now w run st p t m c]
      update_worker_status_rolled_back[of c now w run st p t m]
    by auto
next
  show "case create_block now local w h reason d maxr c of
        (Inl e, c') \<Rightarrow>
          db c' = db c
          \<and> ((if isl (expires_at_of local d) then faults c = [] else length (faults c) \<le> 1)
               \<longrightarrow> txn c' = txn c)
      | (Inr accepted, c') \<Rightarrow>
          txn c = None \<and> txn c' = None
          \<and> accepted = (next_retry_count (fst (select_latest_retry w h (db c))) < maxr)
          \<and> db c' = (if accepted
                      then (case expires_at_of local d of
                              Inr expires_at \<Rightarrow>
                                snd (insert_block now w h expires_at reason
                                       (next_retry_count (fst (select_latest_retry w h (db c))))
                                       maxr (db c))
                            | Inl e \<Rightarrow> db c)
                      else db c)
          \<and> \<not> (accepted \<and> isl (expires_at_of local d))"
    using create_block_atomic[of now local w h reason d maxr c]
      create_block_rolled_back[of local d c now w h reason maxr]
    by (auto simp: create_block_effect_def)
qed

text \<open>
  The upsert of a new worker on an empty store whose \<^verbatim>\<open>COMMIT\<close> (the fourth statement)
  fails: the \<^verbatim>\<open>INSERT\<close> has written the busy row into the open transaction, the call
  raises, and afterwards the database is empty and no transaction is open. A
  \<open>create_block\<close> whose \<^verbatim>\<open>COMMIT\<close> fails likewise. Without a failure the row is there.
\<close>

theorem store_mutations_all_or_nothing_witness:
  "map_option (\<lambda>s. map w_state (workers s))
      (txn (snd (update_worker_status_body 5 ''W-A'' ''R1'' (Some WS_BUSY) (Some 10) None None
                   (snd (sql_begin (open_conn empty_store [3])))))) = Some [''busy'']
   \<and> fst (update_worker_status 5 ''W-A'' ''R1'' (Some WS_BUSY) (Some 10) None None
          (open_conn empty_store [3])) = Inl (OperationalError ''statement failed'')
   \<and> db (snd (update_worker_status 5 ''W-A'' ''R1'' (Some WS_BUSY) (Some 10) None None
          (open_conn empty_store [3]))) = empty_store
   \<and> txn (snd (update_worker_status 5 ''W-A'' ''R1'' (Some WS_BUSY) (Some 10) None None
          (open_conn empty_store [3]))) = None
   \<and> fst (create_block 5 5 ''W-A'' ''PreToolUse'' ''workers busy'' 5 3
          (open_conn empty_store [3])) = Inl (OperationalError ''statement failed'')
   \<and> db (snd (create_block 5 5 ''W-A'' ''PreToolUse'' ''workers busy'' 5 3
          (open_conn empty_store [3]))) = empty_store
   \<and> txn (snd (create_block 5 5 ''W-A'' ''PreToolUse'' ''workers busy'' 5 3
          (open_conn empty_store [3]))) = None
   \<and> fst (update_worker_status 5 ''W-A'' ''R1'' (Some WS_BUSY) (Some 10) None None
          (open_conn empty_store [])) = Inr ()
   \<and> map w_state (workers (db (snd (update_worker_status 5 ''W-A'' ''R1'' (Some WS_BUSY)
          (Some 10) None None (open_conn empty_store []))))) = [''busy'']"
proof -
  let ?c = "open_conn empty_store [3]"
  let ?f = "update_worker_status 5 ''W-A'' ''R1'' (Some WS_BUSY) (Some 10) None None ?c"
  let ?b = "create_block 5 5 ''W-A'' ''PreToolUse'' ''workers busy'' 5 3 ?c"
  let ?g = "update_worker_status 5 ''W-A'' ''R1'' (Some WS_BUSY) (Some 10) None None
          (open_conn empty_store [])"
  have c: "db ?c = empty_store" "txn ?c = None" "length (faults ?c) \<le> 1"
    by (simp_all add: open_conn_def)
  have w: "map_option (\<lambda>s. map w_state (workers s))
      (txn (snd (update_worker_status_body 5 ''W-A'' ''R1'' (Some WS_BUSY) (Some 10) None None
                   (snd (sql_begin ?c))))) = Some [''busy'']"
    by (simp add: update_worker_status_body_def sql_begin_def execute_def db_bind_def faulty_def
        tick_def open_conn_def empty_store_def select_worker_exists_def insert_worker_def)
  have f: "fst ?f = Inl (OperationalError ''statement failed'')"
    by (simp add: update_worker_status_def transaction_def sql_begin_def sql_commit_def
        sql_rollback_def rollback_and_raise_def execute_def db_bind_def faulty_def tick_def
        open_conn_def empty_store_def select_worker_exists_def insert_worker_def)
  have x: "expires_at_of 5 5 = Inr 10"
    by (simp add: expires_at_of_def timedelta_seconds_def datetime_add_def datetime_min_def
        datetime_max_def)
  have b: "fst ?b = Inl (OperationalError ''statement failed'')"
    by (simp add: create_block_def create_block_body_def x transaction_def sql_begin_def
        sql_commit_def sql_rollback_def rollback_and_raise_def execute_def db_bind_def
        db_return_def faulty_def tick_def open_conn_def empty_store_def select_latest_retry_def
        next_retry_count_def insert_block_def)
  have g: "fst ?g = Inr ()"
    by (simp add: update_worker_status_def transaction_def sql_begin_def sql_commit_def
        sql_rollback_def rollback_and_raise_def execute_def db_bind_def faulty_def tick_def
        open_conn_def empty_store_def select_worker_exists_def insert_worker_def)
  note inst = store_mutations_all_or_nothing[where now=5 and w="''W-A''" and run="''R1''"
        and st="Some WS_BUSY" and p="Some 10" and t=None and m=None and local=5
        and h="''PreToolUse''" and reason="''workers busy''" and d=5 and maxr=3]
  have f2: "db (snd ?f) = empty_store \<and> txn (snd ?f) = None"
    using inst[where c="?c"] f c by (cases ?f) auto
  have b2: "db (snd ?b) = empty_store \<and> txn (snd ?b) = None"
    using inst[where c="?c"] b c x by (cases ?b) auto
  have "db (snd ?g) = snd (insert_worker 5 ''W-A'' ''R1'' (Some WS_BUSY) (Some 10) None None
                             empty_store)"
    using inst[where c="open_conn empty_store []"] g
    by (cases ?g) (auto simp: open_conn_def select_worker_exists_def empty_store_def)
  then have g2: "map w_state (workers (db (snd ?g))) = [''busy'']"
    by (simp add: insert_worker_def empty_store_def)
  show ?thesis using w f f2 b b2 g g2 by (intro conjI) simp_all
qed

subsection \<open>Blocks: acceptance and activity\<close>

definition no_faults :: "conn \<Rightarrow> bool" where
  "no_faults c = (txn c = None \<and> faults c = [])"

definition pair_blocks :: "string \<Rightarrow> string \<Rightarrow> store \<Rightarrow> block_row list" where
  "pair_blocks worker_id hook_event s =
     filter (\<lambda>r. b_worker_id r = worker_id \<and> b_hook_event r = hook_event) (blocks s)"

definition active_rows :: "int \<Rightarrow> string option \<Rightarrow> conn \<Rightarrow> block_row list" where
  "active_rows now hook_event c =
     (case fst (get_active_blocks now hook_event c) of Inr rows \<Rightarrow> rows | Inl e \<Rightarrow> [])"

definition next_retry :: "string \<Rightarrow> string \<Rightarrow> store \<Rightarrow> int" where
  "next_retry worker_id hook_event s =
     next_retry_count (map_option b_retry_count (latest_block (pair_blocks worker_id hook_event s)))"

lemma create_block_no_faults:
  assumes "no_faults c"
  shows "create_block now local w h reason d maxr c =
           (if next_retry w h (db c) \<ge> maxr then (Inr False, c\<lparr>stmts := stmts c + 3\<rparr>)
            else (case expires_at_of local d of
                    Inl e \<Rightarrow> (Inl e, c\<lparr>stmts := stmts c + 3\<rparr>)
                  | Inr x \<Rightarrow>
                      (Inr True,
                       c\<lparr>stmts := stmts c + 4,
                         db := snd (insert_block now w h x reason (next_retry w h (db c)) maxr
                                      (db c))\<rparr>)))"
  using assms
  by (simp add: no_faults_def create_block_def create_block_body_def transaction_def
      sql_begin_def sql_commit_def sql_rollback_def rollback_and_raise_def execute_def
      db_bind_def db_return_def db_raise_def faulty_def tick_def select_latest_retry_def
      pair_blocks_def next_retry_def insert_block_def split: sum.splits)

lemma get_active_blocks_no_faults:
  assumes "no_faults c"
  shows "get_active_blocks now hook c =
           (Inr (fst (select_active_blocks now hook (snd (delete_expired_blocks now (db c))))),
            c\<lparr>stmts := stmts c + 2, db := snd (delete_expired_blocks now (db c))\<rparr>)"
  using assms
  by (simp add: no_faults_def get_active_blocks_def execute_def db_bind_def faulty_def tick_def
      select_active_blocks_def delete_expired_blocks_def)

text \<open>
  The most recent block of a list, in words that do not go through the query: no block
  of the list was created later, and it is the first, in rowid order, of the blocks
  created in its second.
\<close>

definition most_recent :: "block_row list \<Rightarrow> block_row \<Rightarrow> bool" where
  "most_recent rs r =
     (list_all (\<lambda>r'. b_created_at r' \<le> b_created_at r) rs
      \<and> find (\<lambda>r'. b_created_at r' = b_created_at r) rs = Some r)"

lemma latest_block_None: "latest_block rs = None \<longleftrightarrow> rs = []"
  by (induction rs) (auto split: option.splits)

lemma latest_block_most_recent:
  "latest_block rs = Some r \<Longrightarrow> most_recent rs r"
proof (induction rs arbitrary: r)
  case Nil
  then show ?case by simp
next
  case (Cons a rs)
  show ?case
  proof (cases "latest_block rs")
    case None
    then have "rs = []" by (simp add: latest_block_None)
    then show ?thesis using Cons.prems by (simp add: most_recent_def)
  next
    case (Some r')
    have ih: "most_recent rs r'" using Cons.IH[OF Some] .
    show ?thesis
    proof (cases "b_created_at r' > b_created_at a")
      case True
      then have "r = r'" using Cons.prems Some by simp
      then show ?thesis using ih True by (simp add: most_recent_def)
    next
      case False
      then have r: "r = a" using Cons.prems Some by simp
      have "list_all (\<lambda>x. b_created_at x \<le> b_created_at a) rs"
        using ih False by (auto simp: most_recent_def list_all_iff)
      then show ?thesis using r by (simp add: most_recent_def)
    qed
  qed
qed

lemma most_recent_unique:
  assumes "most_recent rs r" "most_recent rs r'"
  shows "r = r'"
proof -
  have "r \<in> set rs" "r' \<in> set rs"
    using assms by (auto simp: most_recent_def find_Some_iff)
  then have "b_created_at r = b_created_at r'"
    using assms by (auto simp: most_recent_def list_all_iff intro: antisym)
  then show ?thesis using assms by (simp add: most_recent_def)
qed

lemma next_retry_cases:
  "(pair_blocks w h s = [] \<and> next_retry w h s = 0)
   \<or> (\<exists>r. most_recent (pair_blocks w h s) r \<and> next_retry w h s = b_retry_count r + 1)"
proof (cases "latest_block (pair_blocks w h s)")
  case None
  then show ?thesis by (simp add: latest_block_None next_retry_def next_retry_count_def)
next
  case (Some r)
  then have "most_recent (pair_blocks w h s) r" by (rule latest_block_most_recent)
  moreover have "next_retry w h s = b_retry_count r + 1"
    using Some by (simp add: next_retry_def next_retry_count_def)
  ultimately show ?thesis by blast
qed

text \<open>When the expiry can be computed.\<close>

definition expiry_representable :: "int \<Rightarrow> int \<Rightarrow> bool" where
  "expiry_representable local_now duration_seconds =
     (- 999999999 \<le> duration_seconds div 86400 \<and> duration_seconds div 86400 \<le> 999999999
      \<and> datetime_min \<le> local_now + duration_seconds
      \<and> local_now + duration_seconds \<le> datetime_max)"

lemma expires_at_of_cases:
  "if expiry_representable local d then expires_at_of local d = Inr (local + d)
   else isl (expires_at_of local d)"
  by (auto simp: expiry_representable_def expires_at_of_def timedelta_seconds_def
      datetime_add_def Let_def)

text \<open>The claim's words: the retry count of the most recent existing block of the pair
  has reached \<open>max_retries\<close>.\<close>

definition retry_count_reached :: "string \<Rightarrow> string \<Rightarrow> int \<Rightarrow> store \<Rightarrow> bool" where
  "retry_count_reached worker_id hook_event max_retries s =
     list_ex (\<lambda>r. most_recent (pair_blocks worker_id hook_event s) r
                  \<and> b_retry_count r \<ge> max_retries)
       (pair_blocks worker_id hook_event s)"

text \<open>Three calls for one pair with \<open>max_retries = 3\<close>, at seconds 1, 2 and 3 on a host
  whose local time is UTC.\<close>

definition blocked_thrice :: conn where
  "blocked_thrice =
     snd (create_block 3 3 ''W-A'' ''PreToolUse'' ''workers busy'' 5 3
       (snd (create_block 2 2 ''W-A'' ''PreToolUse'' ''workers busy'' 5 3
         (snd (create_block 1 1 ''W-A'' ''PreToolUse'' ''workers busy'' 5 3
           (open_conn empty_store []))))))"

lemma expires_at_of_small:
  "expires_at_of 1 5 = Inr 6" "expires_at_of 2 5 = Inr 7" "expires_at_of 3 5 = Inr 8"
  "expires_at_of 10 5 = Inr 15" "expires_at_of (- 17990) 5 = Inr (- 17985)"
  "expires_at_of 10 1000000000000 = Inl (OverflowError ''date value out of range'')"
  by (simp_all add: expires_at_of_def timedelta_seconds_def datetime_add_def datetime_min_def
      datetime_max_def)

lemma blocked_thrice_eq:
  "blocked_thrice =
     \<lparr>db = empty_store\<lparr>blocks :=
             [new_block 1 1 ''W-A'' ''PreToolUse'' 6 ''workers busy'' 0 3,
              new_block 2 2 ''W-A'' ''PreToolUse'' 7 ''workers busy'' 1 3,
              new_block 3 3 ''W-A'' ''PreToolUse'' 8 ''workers busy'' 2 3],
             blocks_seq := 3\<rparr>,
      txn = None, stmts = 12, faults = []\<rparr>"
  by (simp add: blocked_thrice_def create_block_no_faults no_faults_def open_conn_def
      empty_store_def pair_blocks_def next_retry_def next_retry_count_def insert_block_def
      new_block_def expires_at_of_small)

text \<open>A host five hours west of UTC: the call at UTC second 10 reads the local second
  \<open>10 - 18000\<close>.\<close>

definition blocked_west :: conn where
  "blocked_west =
     snd (create_block 10 (- 17990) ''W-A'' ''PreToolUse'' ''workers busy'' 5 3
            (open_conn empty_store []))"

lemma blocked_west_eq:
  "create_block 10 (- 17990) ''W-A'' ''PreToolUse'' ''workers busy'' 5 3 (open_conn empty_store [])
     = (Inr True,
        \<lparr>db = empty_store\<lparr>blocks :=
              [new_block 1 10 ''W-A'' ''PreToolUse'' (- 17985) ''workers busy'' 0 3],
              blocks_seq := 1\<rparr>,
         txn = None, stmts = 4, faults = []\<rparr>)"
  by (simp add: create_block_no_faults no_faults_def open_conn_def
      empty_store_def pair_blocks_def next_retry_def next_retry_count_def insert_block_def
      new_block_def expires_at_of_small)

text \<open>
  Claim C1 as stated fails at three inputs. The fourth call for a pair is rejected,
  although the most recent block of the pair has retry count 2, which has not reached 3.
  On a host west of UTC a call is accepted and its lease, five seconds from its expiry on
  the clock that wrote it, is not among the active blocks in the very second of the call.
  A call with a duration of \<open>10\<^sup>1\<^sup>2\<close> seconds for a pair without blocks is neither
  rejected nor accepted: it raises.
\<close>

theorem create_block_rejects_before_reached:
  "\<not> (fst (create_block 4 4 ''W-A'' ''PreToolUse'' ''workers busy'' 5 3 blocked_thrice) = Inr False
       \<longleftrightarrow> retry_count_reached ''W-A'' ''PreToolUse'' 3 (db blocked_thrice))
   \<and> fst (create_block 10 (- 17990) ''W-A'' ''PreToolUse'' ''workers busy'' 5 3
            (open_conn empty_store [])) = Inr True
   \<and> active_rows 10 None blocked_west = []
   \<and> fst (create_block 10 10 ''W-A'' ''PreToolUse'' ''workers busy'' 1000000000000 3
            (open_conn empty_store []))
       = Inl (OverflowError ''date value out of range'')"
proof -
  have nf: "no_faults blocked_thrice" by (simp add: blocked_thrice_eq no_faults_def)
  have "fst (create_block 4 4 ''W-A'' ''PreToolUse'' ''workers busy'' 5 3 blocked_thrice) = Inr False"
    by (simp add: create_block_no_faults[OF nf])
       (simp add: blocked_thrice_eq pair_blocks_def new_block_def next_retry_def
          next_retry_count_def empty_store_def)
  moreover have "\<not> retry_count_reached ''W-A'' ''PreToolUse'' 3 (db blocked_thrice)"
    by (simp add: blocked_thrice_eq retry_count_reached_def pair_blocks_def new_block_def
        empty_store_def most_recent_def)
  ultimately have a: "\<not> (fst (create_block 4 4 ''W-A'' ''PreToolUse'' ''workers busy'' 5 3
                               blocked_thrice) = Inr False
       \<longleftrightarrow> retry_count_reached ''W-A'' ''PreToolUse'' 3 (db blocked_thrice))" by simp
  have b: "fst (create_block 10 (- 17990) ''W-A'' ''PreToolUse'' ''workers busy'' 5 3
            (open_conn empty_store [])) = Inr True"
    by (simp add: blocked_west_eq)
  have bw: "blocked_west =
        \<lparr>db = empty_store\<lparr>blocks :=
              [new_block 1 10 ''W-A'' ''PreToolUse'' (- 17985) ''workers busy'' 0 3],
              blocks_seq := 1\<rparr>,
         txn = None, stmts = 4, faults = []\<rparr>"
    unfolding blocked_west_def blocked_west_eq by simp
  have nfw: "no_faults blocked_west" unfolding bw by (simp add: no_faults_def)
  have "active_rows 10 None blocked_west =
          fst (select_active_blocks 10 None (snd (delete_expired_blocks 10 (db blocked_west))))"
    by (simp add: active_rows_def get_active_blocks_no_faults[OF nfw])
  also have "\<dots> = []"
    unfolding bw
    by (simp add: select_active_blocks_def delete_expired_blocks_def new_block_def
        empty_store_def)
  finally have c: "active_rows 10 None blocked_west = []" .
  have nfe: "no_faults (open_conn empty_store [])" by (simp add: no_faults_def open_conn_def)
  have d: "fst (create_block 10 10 ''W-A'' ''PreToolUse'' ''workers busy'' 1000000000000 3
            (open_conn empty_store [])) = Inl (OverflowError ''date value out of range'')"
    by (simp add: create_block_no_faults[OF nfe] expires_at_of_small)
       (simp add: open_conn_def empty_store_def pair_blocks_def next_retry_def
          next_retry_count_def)
  show ?thesis using a b c d by (intro conjI)
qed

text \<open>
  Claim C1, amended. With no statement failing, the next retry count is 0 for a pair
  without blocks and otherwise the retry count of the pair's most recent block plus one.
  \<open>create_block\<close> is rejected exactly when the next retry count is at least
  \<open>max_retries\<close>, and then the database is unchanged. Otherwise, when the expiry (the
  local time of the call plus \<open>duration\<close>) is not representable, at most 999999999 days
  of duration and a year from 1 to 9999, the call raises \<^verbatim>\<open>OverflowError\<close> and the
  database is unchanged; when it is, the call is accepted and appends one lease, created
  at the UTC second of the call, with that expiry. On a host whose local time is UTC,
  \<open>get_active_blocks\<close> (unfiltered, or filtered by the lease's hook event) returns
  that lease at exactly the clock readings before the expiry.
\<close>

theorem create_block_lease:
  assumes "no_faults c"
  shows "\<exists>c'. create_block now local w h reason d maxr c =
                 (if next_retry w h (db c) \<ge> maxr then Inr False
                  else (case expires_at_of local d of Inl e \<Rightarrow> Inl e | Inr x \<Rightarrow> Inr True),
                  c')
           \<and> no_faults c'
           \<and> (pair_blocks w h (db c) = [] \<and> next_retry w h (db c) = 0
               \<or> (\<exists>r. most_recent (pair_blocks w h (db c)) r
                       \<and> next_retry w h (db c) = b_retry_count r + 1))
           \<and> (if expiry_representable local d then expires_at_of local d = Inr (local + d)
               else isl (expires_at_of local d))
           \<and> (if next_retry w h (db c) < maxr \<and> expiry_representable local d
               then blocks (db c') = blocks (db c)
                      @ [new_block (Suc (blocks_seq (db c))) now w h (local + d) reason
                           (next_retry w h (db c)) maxr]
                    \<and> (local = now \<longrightarrow>
                         (\<forall>t hook. hook = None \<or> hook = Some [] \<or> hook = Some h \<longrightarrow>
                            (new_block (Suc (blocks_seq (db c))) now w h (local + d) reason
                                 (next_retry w h (db c)) maxr
                               \<in> set (active_rows t hook c')
                             \<longleftrightarrow> t < now + d)))
               else db c' = db c)"
proof -
  note cases = next_retry_cases[of w h "db c"]
  note rep = expires_at_of_cases[of local d]
  show ?thesis
  proof (cases "next_retry w h (db c) \<ge> maxr")
    case True
    let ?c' = "c\<lparr>stmts := stmts c + 3\<rparr>"
    have "create_block now local w h reason d maxr c = (Inr False, ?c')"
      using True by (simp add: create_block_no_faults[OF assms])
    moreover have "no_faults ?c'" using assms by (simp add: no_faults_def)
    moreover have "db ?c' = db c" by simp
    ultimately show ?thesis using True cases rep by (intro exI[of _ ?c']) simp
  next
    case False
    show ?thesis
    proof (cases "expiry_representable local d")
      case norep: False
      let ?c' = "c\<lparr>stmts := stmts c + 3\<rparr>"
      obtain e where e: "expires_at_of local d = Inl e"
        using rep norep by (cases "expires_at_of local d") auto
      have "create_block now local w h reason d maxr c = (Inl e, ?c')"
        using False e by (simp add: create_block_no_faults[OF assms])
      moreover have "no_faults ?c'" using assms by (simp add: no_faults_def)
      moreover have "db ?c' = db c" by simp
      ultimately show ?thesis using False norep cases rep e by (intro exI[of _ ?c']) simp
    next
      case isrep: True
      have x: "expires_at_of local d = Inr (local + d)"
        using expires_at_of_cases[of local d] isrep by simp
      let ?lease = "new_block (Suc (blocks_seq (db c))) now w h (local + d) reason
                      (next_retry w h (db c)) maxr"
      let ?s' = "snd (insert_block now w h (local + d) reason (next_retry w h (db c)) maxr (db c))"
      let ?c' = "c\<lparr>stmts := stmts c + 4, db := ?s'\<rparr>"
      have r: "create_block now local w h reason d maxr c = (Inr True, ?c')"
        using False x by (simp add: create_block_no_faults[OF assms])
      have nf: "no_faults ?c'" using assms by (simp add: no_faults_def)
      have bl: "blocks (db ?c') = blocks (db c) @ [?lease]" by (simp add: insert_block_def)
      have act: "local = now \<longrightarrow>
                   (\<forall>t hook. hook = None \<or> hook = Some [] \<or> hook = Some h \<longrightarrow>
                      (?lease \<in> set (active_rows t hook ?c') \<longleftrightarrow> t < now + d))"
      proof (intro allI impI)
        fix t hook
        assume utc: "local = now" and hk: "hook = None \<or> hook = Some [] \<or> hook = Some h"
        have "active_rows t hook ?c' =
                fst (select_active_blocks t hook (snd (delete_expired_blocks t (db ?c'))))"
          by (simp add: active_rows_def get_active_blocks_no_faults[OF nf])
        moreover have "db ?c' = (db c)\<lparr>blocks := blocks (db c) @ [?lease],
                                       blocks_seq := Suc (blocks_seq (db c))\<rparr>"
          by (simp add: insert_block_def)
        ultimately show "?lease \<in> set (active_rows t hook ?c') \<longleftrightarrow> t < now + d"
          using hk utc
          by (auto simp: select_active_blocks_def delete_expired_blocks_def new_block_def)
      qed
      have fin: "create_block now local w h reason d maxr c =
                 (if next_retry w h (db c) \<ge> maxr then Inr False
                  else (case expires_at_of local d of Inl e \<Rightarrow> Inl e | Inr x \<Rightarrow> Inr True),
                  ?c')"
        using r False x by simp
      have last: "if next_retry w h (db c) < maxr \<and> expiry_representable local d
               then blocks (db ?c') = blocks (db c) @ [?lease]
                    \<and> (local = now \<longrightarrow>
                         (\<forall>t hook. hook = None \<or> hook = Some [] \<or> hook = Some h \<longrightarrow>
                            (?lease \<in> set (active_rows t hook ?c') \<longleftrightarrow> t < now + d)))
               else db ?c' = db c"
        using False isrep bl act by simp
      show ?thesis
        by (rule exI[of _ ?c']) (intro conjI fin nf cases rep last)
    qed
  qed
qed

text \<open>The first call on an empty store, at second 10 of a host on UTC, for 5 seconds:
  accepted; the lease is returned at second 14 and no longer at second 15.\<close>

theorem create_block_lease_witness:
  "no_faults (open_conn empty_store [])
   \<and> fst (create_block 10 10 ''W-A'' ''PreToolUse'' ''workers busy'' 5 3 (open_conn empty_store []))
       = Inr True
   \<and> active_rows 14 None
        (snd (create_block 10 10 ''W-A'' ''PreToolUse'' ''workers busy'' 5 3
                (open_conn empty_store [])))
       = [new_block 1 10 ''W-A'' ''PreToolUse'' 15 ''workers busy'' 0 3]
   \<and> active_rows 15 None
        (snd (create_block 10 10 ''W-A'' ''PreToolUse'' ''workers busy'' 5 3
                (open_conn empty_store [])))
       = []"
proof -
  have nf: "no_faults (open_conn empty_store [])" by (simp add: no_faults_def open_conn_def)
  have dbo: "db (open_conn empty_store []) = empty_store" by (simp add: open_conn_def)
  have n: "next_retry ''W-A'' ''PreToolUse'' empty_store = 0"
    by (simp add: next_retry_def next_retry_count_def pair_blocks_def empty_store_def)
  have e: "blocks empty_store = []" "blocks_seq empty_store = 0" by (simp_all add: empty_store_def)
  have rep: "expiry_representable 10 5"
    by (simp add: expiry_representable_def datetime_min_def datetime_max_def)
  from create_block_lease[OF nf, of 10 10 "''W-A''" "''PreToolUse''" "''workers busy''" 5 3]
  obtain c' where c': "create_block 10 10 ''W-A'' ''PreToolUse'' ''workers busy'' 5 3
        (open_conn empty_store []) = (Inr True, c')" "no_faults c'"
    "blocks (db c') = [new_block 1 10 ''W-A'' ''PreToolUse'' 15 ''workers busy'' 0 3]"
    unfolding dbo n e using rep by auto
  have rows: "active_rows t None c' =
      fst (select_active_blocks t None (snd (delete_expired_blocks t (db c'))))" for t
    by (simp add: active_rows_def get_active_blocks_no_faults[OF c'(2)])
  have "active_rows 14 None c' = [new_block 1 10 ''W-A'' ''PreToolUse'' 15 ''workers busy'' 0 3]"
    by (simp add: rows select_active_blocks_def delete_expired_blocks_def c'(3) new_block_def)
  moreover have "active_rows 15 None c' = []"
    by (simp add: rows select_active_blocks_def delete_expired_blocks_def c'(3) new_block_def)
  ultimately show ?thesis using nf c'(1) by simp
qed

section \<open>The JSON-lines event log (event\_store.py, models.py)\<close>

datatype models_EventType = M_START | M_PROGRESS | M_ARTIFACT | M_ERROR | M_DONE | M_MERGE_READY

text \<open>The fields of \<^verbatim>\<open>models.Event\<close> that the store reads (\<^verbatim>\<open>error\<close> and
  \<^verbatim>\<open>artifacts\<close> are carried by the log and read by no function).\<close>

record Event =
  ev_t :: models_EventType
  ev_ts :: string
  ev_w :: "string option"
  ev_task :: "string option"
  ev_msg :: "string option"
  ev_path :: "string option"
  ev_pct :: "int option"

text \<open>Python truthiness of an optional string: \<^verbatim>\<open>None\<close> and \<^verbatim>\<open>''\<close> are false.\<close>

definition truthy :: "string option \<Rightarrow> bool" where
  "truthy x = (case x of None \<Rightarrow> False | Some s \<Rightarrow> s \<noteq> [])"

subsection \<open>\<^verbatim>\<open>EventStore.get_ready_artifacts\<close>\<close>

text \<open>First pass: the workers with a done event. Second pass: the paths of the artifact
  events of those workers, in log order.\<close>

definition done_workers :: "Event list \<Rightarrow> string set" where
  "done_workers log =
     set (List.map_filter (\<lambda>e. if ev_t e = M_DONE \<and> truthy (ev_w e) then ev_w e else None) log)"

definition get_ready_artifacts_v1 :: "Event list \<Rightarrow> string list" where
  "get_ready_artifacts_v1 log =
     List.map_filter
       (\<lambda>e. if ev_t e = M_ARTIFACT
                \<and> (case ev_w e of None \<Rightarrow> False | Some w \<Rightarrow> w \<in> done_workers log)
                \<and> truthy (ev_path e)
             then ev_path e else None) log"

subsection \<open>\<^verbatim>\<open>EventStore.compute_status\<close>\<close>

record worker_status =
  ws_id :: string
  ws_state :: string
  ws_percent :: int
  ws_last_msg :: string
  ws_task :: "string option"

record status_acc =
  workers_map :: "(string \<times> worker_status) list"
  tasks_done :: "string set"
  tasks_pending :: "string set"

record Status =
  st_run_id :: string
  st_workers :: "worker_status list"
  st_blocked_on :: "string set"
  st_merge_ready :: bool

text \<open>\<^verbatim>\<open>str.lower\<close> on the letters A to Z, and the test
  \<^verbatim>\<open>'waiting' in (event.msg or '').lower()\<close>.\<close>

definition lower_char :: "char \<Rightarrow> char" where
  "lower_char ch =
     (if 65 \<le> (of_char ch :: nat) \<and> (of_char ch :: nat) \<le> 90
      then char_of (of_char ch + 32 :: nat) else ch)"

definition says_waiting :: "string option \<Rightarrow> bool" where
  "says_waiting m =
     sublist ''waiting'' (map lower_char (case m of None \<Rightarrow> [] | Some s \<Rightarrow> s))"

text \<open>The \<^verbatim>\<open>if\<close>/\<^verbatim>\<open>elif\<close> chain on the worker's dictionary.\<close>

definition transition :: "Event \<Rightarrow> worker_status \<Rightarrow> worker_status" where
  "transition event worker =
     (case ev_t event of
        M_START \<Rightarrow> worker\<lparr>ws_state := ''running'', ws_percent := 0\<rparr>
      | M_PROGRESS \<Rightarrow>
          worker\<lparr>ws_percent := (case ev_pct event of Some p \<Rightarrow> p | None \<Rightarrow> ws_percent worker),
                 ws_last_msg := (if truthy (ev_msg event) then the (ev_msg event)
                                 else ws_last_msg worker),
                 ws_state := (if says_waiting (ev_msg event) then ''waiting''
                              else ws_state worker)\<rparr>
      | M_ERROR \<Rightarrow>
          worker\<lparr>ws_state := ''error'',
                 ws_last_msg := (if truthy (ev_msg event) then the (ev_msg event)
                                 else ws_last_msg worker)\<rparr>
      | M_DONE \<Rightarrow> worker\<lparr>ws_state := ''done'', ws_percent := 100\<rparr>
      | M_ARTIFACT \<Rightarrow> worker
      | M_MERGE_READY \<Rightarrow> worker)"

text \<open>A dictionary keeps insertion order: an existing key is updated in place, a new
  one is appended.\<close>

fun set_worker ::
  "string \<Rightarrow> worker_status \<Rightarrow> (string \<times> worker_status) list \<Rightarrow> (string \<times> worker_status) list"
  where
  "set_worker k v [] = [(k, v)]"
| "set_worker k v ((k', v') # rest) =
     (if k = k' then (k, v) # rest else (k', v') # set_worker k v rest)"

definition init_worker :: "string \<Rightarrow> string option \<Rightarrow> worker_status" where
  "init_worker wid task_id =
     \<lparr>ws_id = wid, ws_state = ''init'', ws_percent = 0, ws_last_msg = [], ws_task = task_id\<rparr>"

definition apply_event :: "Event \<Rightarrow> status_acc \<Rightarrow> status_acc" where
  "apply_event event acc =
     (if \<not> truthy (ev_w event) then acc
      else
        (let wid = the (ev_w event);
             worker = (case map_of (workers_map acc) wid of
                         Some x \<Rightarrow> x
                       | None \<Rightarrow> init_worker wid (ev_task event))
         in acc\<lparr>workers_map := set_worker wid (transition event worker) (workers_map acc),
                tasks_pending :=
                  (if truthy (ev_task event) \<and> ev_t event = M_START
                   then insert (the (ev_task event)) (tasks_pending acc)
                   else if truthy (ev_task event) \<and> ev_t event = M_DONE
                   then tasks_pending acc - {the (ev_task event)}
                   else tasks_pending acc),
                tasks_done :=
                  (if truthy (ev_task event) \<and> ev_t event = M_DONE
                   then insert (the (ev_task event)) (tasks_done acc)
                   else tasks_done acc)\<rparr>))"

definition status_of_log :: "Event list \<Rightarrow> status_acc" where
  "status_of_log log =
     fold apply_event log \<lparr>workers_map = [], tasks_done = {}, tasks_pending = {}\<rparr>"

definition compute_status :: "string \<Rightarrow> Event list \<Rightarrow> Status" where
  "compute_status run_id log =
     (let acc = status_of_log log
      in \<lparr>st_run_id = run_id,
          st_workers = map snd (workers_map acc),
          st_blocked_on = tasks_pending acc - tasks_done acc,
          st_merge_ready = (card (tasks_pending acc) = 0 \<and> card (tasks_done acc) > 0)\<rparr>)"

text \<open>The state that \<open>compute_status\<close> derives for a worker from a log.\<close>

definition log_state :: "Event list \<Rightarrow> string \<Rightarrow> string option" where
  "log_state log wid = map_option ws_state (map_of (workers_map (status_of_log log)) wid)"

section \<open>Ready artifacts\<close>

lemma set_map_filter_iff:
  "set (List.map_filter f xs) = {y. \<exists>x \<in> set xs. f x = Some y}"
  by (induction xs) (auto split: option.splits)

lemma sql_distinct_props: "distinct (sql_distinct xs)" "set (sql_distinct xs) = set xs"
  by (simp_all add: sql_distinct_def)

lemma artifact_of_completed_task_workers:
  "artifact_of_completed_task run_id (s\<lparr>workers := ws\<rparr>) = artifact_of_completed_task run_id s"
  by (rule ext) (simp add: artifact_of_completed_task_def)

lemma get_ready_artifacts_no_faults:
  assumes "no_faults c"
  shows "get_ready_artifacts run_id c =
           (Inr (fst (select_ready_artifacts run_id (db c))), c\<lparr>stmts := Suc (stmts c)\<rparr>)"
  using assms
  by (simp add: no_faults_def get_ready_artifacts_def execute_def faulty_def tick_def
      select_ready_artifacts_def)

lemma set_select_ready_artifacts:
  "set (fst (select_ready_artifacts run_id s)) =
     {p. \<exists>e \<in> set (events s). e_event_type e = ''artifact'' \<and> e_run_id e = run_id
            \<and> json_extract_path (e_payload e) = Some p
            \<and> (\<exists>t \<in> set (tasks s). e_task_id e = Some (t_id t) \<and> t_state t = Some ''completed'')}"
proof -
  have "set (fst (select_ready_artifacts run_id s)) =
          {p. \<exists>e \<in> set (filter (artifact_of_completed_task run_id s) (events s)).
                 json_extract_path (e_payload e) = Some p}"
    by (simp add: select_ready_artifacts_def set_map_filter_iff sql_distinct_props)
  also have "\<dots> = {p. \<exists>e \<in> set (events s). e_event_type e = ''artifact'' \<and> e_run_id e = run_id
            \<and> json_extract_path (e_payload e) = Some p
            \<and> (\<exists>t \<in> set (tasks s). e_task_id e = Some (t_id t) \<and> t_state t = Some ''completed'')}"
    by (auto simp: artifact_of_completed_task_def list_ex_iff)
  finally show ?thesis .
qed

lemma select_ready_artifacts_no_tasks:
  "tasks s = [] \<Longrightarrow> fst (select_ready_artifacts run_id s) = []"
  by (simp add: select_ready_artifacts_def artifact_of_completed_task_def sql_distinct_def
      List.map_filter_simps)

lemma if_Some_iff: "(if A then x else None) = Some p \<longleftrightarrow> A \<and> x = Some p"
  by simp

lemma in_done_workers:
  "w \<in> done_workers log \<longleftrightarrow> (\<exists>d \<in> set log. ev_t d = M_DONE \<and> ev_w d = Some w \<and> w \<noteq> [])"
proof -
  have "w \<in> done_workers log \<longleftrightarrow>
          (\<exists>d \<in> set log. (ev_t d = M_DONE \<and> truthy (ev_w d)) \<and> ev_w d = Some w)"
    unfolding done_workers_def set_map_filter_iff if_Some_iff by simp
  also have "\<dots> \<longleftrightarrow> (\<exists>d \<in> set log. ev_t d = M_DONE \<and> ev_w d = Some w \<and> w \<noteq> [])"
    by (rule bex_cong) (auto simp: truthy_def)
  finally show ?thesis .
qed

lemma set_get_ready_artifacts_v1:
  "set (get_ready_artifacts_v1 log) =
     {p. \<exists>e \<in> set log. ev_t e = M_ARTIFACT \<and> ev_path e = Some p \<and> p \<noteq> []
           \<and> (\<exists>d \<in> set log. ev_t d = M_DONE \<and> ev_w d = ev_w e \<and> truthy (ev_w e))}"
proof -
  have step: "(ev_t e = M_ARTIFACT
                \<and> (case ev_w e of None \<Rightarrow> False | Some w \<Rightarrow> w \<in> done_workers log)
                \<and> truthy (ev_path e)) \<and> ev_path e = Some p
              \<longleftrightarrow> ev_t e = M_ARTIFACT \<and> ev_path e = Some p \<and> p \<noteq> []
                  \<and> (\<exists>d \<in> set log. ev_t d = M_DONE \<and> ev_w d = ev_w e \<and> truthy (ev_w e))"
    for e p
  proof (cases "ev_w e")
    case None
    then show ?thesis by (simp add: truthy_def)
  next
    case (Some w)
    then show ?thesis by (auto simp: in_done_workers truthy_def)
  qed
  have "set (get_ready_artifacts_v1 log) =
          {p. \<exists>e \<in> set log. (ev_t e = M_ARTIFACT
                \<and> (case ev_w e of None \<Rightarrow> False | Some w \<Rightarrow> w \<in> done_workers log)
                \<and> truthy (ev_path e)) \<and> ev_path e = Some p}"
    unfolding get_ready_artifacts_v1_def set_map_filter_iff if_Some_iff ..
  then show ?thesis unfolding step .
qed

text \<open>The claim's words: \<open>p\<close> is the path of an artifact event of the run that belongs to
  a task whose worker is not done.\<close>

definition path_of_undone_worker :: "string \<Rightarrow> store \<Rightarrow> sql_value \<Rightarrow> bool" where
  "path_of_undone_worker run_id s p =
     list_ex (\<lambda>e. e_event_type e = ''artifact'' \<and> e_run_id e = run_id
                  \<and> json_extract_path (e_payload e) = Some p
                  \<and> list_ex (\<lambda>r. e_task_id e \<noteq> None \<and> w_task_id r = e_task_id e
                                   \<and> w_state r \<noteq> ''done'') (workers s)) (events s)"

text \<open>A state of the store: task \<open>A\<close> is marked completed in the tasks table while its
  only worker is in state error and has left an artifact event.\<close>

definition failed_but_completed :: store where
  "failed_but_completed =
     empty_store\<lparr>
       events := [\<lparr>e_id = 1, e_timestamp = 7, e_run_id = ''R1'', e_worker_id = Some ''W-A'',
                   e_event_type = ''artifact'', e_task_id = Some ''A'',
                   e_payload = Some [(''path'', JStr ''workers/W-A/output.txt'')]\<rparr>],
       workers := [\<lparr>w_id = ''W-A'', w_run_id = ''R1'', w_task_id = Some ''A'',
                    w_state = ''error'', w_pid = None, w_started_at = Some 5,
                    w_last_heartbeat = Some 8, w_progress = Some 0,
                    w_last_message = Some ''Command exited with code 1''\<rparr>],
       tasks := [\<lparr>t_id = ''A'', t_run_id = ''R1'', t_description = Some ''build'',
                  t_state = Some ''completed'', t_assigned_worker = Some ''W-A'',
                  t_created_at = Some 1, t_completed_at = Some 8\<rparr>],
       events_seq := 1\<rparr>"

text \<open>A log written with \<^verbatim>\<open>EventStore.append_event\<close>: worker \<open>W-A\<close> starts, emits an
  artifact, is done, and starts again.\<close>

definition run_event :: "models_EventType \<Rightarrow> string option \<Rightarrow> Event" where
  "run_event k path = \<lparr>ev_t = k, ev_ts = ''2025-01-01T00:00:00'', ev_w = Some ''W-A'',
                       ev_task = Some ''A'', ev_msg = None, ev_path = path, ev_pct = None\<rparr>"

definition restarted_log :: "Event list" where
  "restarted_log =
     [run_event M_START None, run_event M_ARTIFACT (Some ''workers/W-A/output.txt''),
      run_event M_DONE None, run_event M_START None]"

text \<open>A store written with the methods of \<^verbatim>\<open>EventStoreV2\<close>: an artifact event of
  worker \<open>W-A\<close> for task \<open>A\<close>, then the worker's row in state done.\<close>

definition reported_done :: conn where
  "reported_done =
     snd (update_worker_status 8 ''W-A'' ''R1'' (Some WS_DONE) (Some 100) (Some ''A'') None
       (snd (append_event 7 (Member ARTIFACT) ''R1'' (Some ''W-A'') (Some ''A'')
               (Some [(''path'', JStr ''workers/W-A/output.txt'')]) (open_conn empty_store []))))"

lemma reported_done_eq:
  "reported_done =
     \<lparr>db = empty_store\<lparr>
        events := [\<lparr>e_id = 1, e_timestamp = 7, e_run_id = ''R1'', e_worker_id = Some ''W-A'',
                    e_event_type = ''artifact'', e_task_id = Some ''A'',
                    e_payload = Some [(''path'', JStr ''workers/W-A/output.txt'')]\<rparr>],
        workers := [\<lparr>w_id = ''W-A'', w_run_id = ''R1'', w_task_id = Some ''A'',
                     w_state = ''done'', w_pid = None, w_started_at = Some 8,
                     w_last_heartbeat = Some 8, w_progress = Some 100,
                     w_last_message = None\<rparr>],
        events_seq := 1\<rparr>,
      txn = None, stmts = 7, faults = []\<rparr>"
  by (simp add: reported_done_def append_event_def update_worker_status_def transaction_def
      sql_begin_def sql_commit_def execute_def db_bind_def faulty_def tick_def open_conn_def
      empty_store_def select_worker_exists_def insert_worker_def insert_event_def
      payload_column_def Let_def)

text \<open>
  Claim C3 as stated fails. In the store state above the path is returned although the
  task's worker is not done. In the log above the path is returned although
  \<open>compute_status\<close> has the worker running.
\<close>

theorem ready_artifact_of_failed_worker:
  "fst (get_ready_artifacts ''R1'' (open_conn failed_but_completed []))
     = Inr [SqlText ''workers/W-A/output.txt'']
   \<and> path_of_undone_worker ''R1'' failed_but_completed (SqlText ''workers/W-A/output.txt'')
   \<and> get_ready_artifacts_v1 restarted_log = [''workers/W-A/output.txt'']
   \<and> log_state restarted_log ''W-A'' = Some ''running''"
proof -
  have a: "fst (get_ready_artifacts ''R1'' (open_conn failed_but_completed []))
     = Inr [SqlText ''workers/W-A/output.txt'']"
    by (simp add: get_ready_artifacts_def execute_def faulty_def tick_def open_conn_def
        select_ready_artifacts_def failed_but_completed_def empty_store_def
        artifact_of_completed_task_def json_extract_path_def sql_distinct_def
        List.map_filter_simps)
  have b: "path_of_undone_worker ''R1'' failed_but_completed (SqlText ''workers/W-A/output.txt'')"
    by (simp add: path_of_undone_worker_def failed_but_completed_def empty_store_def
        json_extract_path_def)
  have c: "get_ready_artifacts_v1 restarted_log = [''workers/W-A/output.txt'']"
    by (simp add: get_ready_artifacts_v1_def restarted_log_def run_event_def done_workers_def
        truthy_def List.map_filter_simps)
  have d: "log_state restarted_log ''W-A'' = Some ''running''"
    by (simp add: log_state_def status_of_log_def apply_event_def restarted_log_def
        run_event_def truthy_def init_worker_def transition_def Let_def)
  show ?thesis by (intro conjI a b c d)
qed

text \<open>
  Claim C3, amended. With no statement failing, \<open>get_ready_artifacts run_id\<close> returns,
  without repetition and without changing the store, exactly the non-null \<open>path\<close> values
  (as SQL values: a JSON boolean as the integer 1 or 0) of the run's artifact events
  whose task row is in state \<open>completed\<close>; the workers table is not read, and with an
  empty tasks table nothing is returned. The log-based store returns exactly the
  non-empty paths of the artifact events of workers that have a done event in the log.
\<close>

theorem get_ready_artifacts_exact:
  assumes "no_faults c"
  shows "\<exists>rows c'. get_ready_artifacts run_id c = (Inr rows, c') \<and> db c' = db c
           \<and> distinct rows
           \<and> set rows =
               {p. \<exists>e \<in> set (events (db c)). e_event_type e = ''artifact'' \<and> e_run_id e = run_id
                     \<and> json_extract_path (e_payload e) = Some p
                     \<and> (\<exists>t \<in> set (tasks (db c)). e_task_id e = Some (t_id t)
                            \<and> t_state t = Some ''completed'')}
           \<and> (\<forall>ws. fst (get_ready_artifacts run_id (c\<lparr>db := (db c)\<lparr>workers := ws\<rparr>\<rparr>))
                      = Inr rows)
           \<and> (tasks (db c) = [] \<longrightarrow> rows = [])
           \<and> set (get_ready_artifacts_v1 log) =
               {p. \<exists>e \<in> set log. ev_t e = M_ARTIFACT \<and> ev_path e = Some p \<and> p \<noteq> []
                     \<and> (\<exists>d \<in> set log. ev_t d = M_DONE \<and> ev_w d = ev_w e \<and> truthy (ev_w e))}"
proof -
  let ?rows = "fst (select_ready_artifacts run_id (db c))"
  let ?c' = "c\<lparr>stmts := Suc (stmts c)\<rparr>"
  have r: "get_ready_artifacts run_id c = (Inr ?rows, ?c')"
    by (rule get_ready_artifacts_no_faults[OF assms])
  have d: "distinct ?rows" by (simp add: select_ready_artifacts_def sql_distinct_props)
  have w: "\<forall>ws. fst (get_ready_artifacts run_id (c\<lparr>db := (db c)\<lparr>workers := ws\<rparr>\<rparr>)) = Inr ?rows"
  proof
    fix ws
    have "no_faults (c\<lparr>db := (db c)\<lparr>workers := ws\<rparr>\<rparr>)" using assms by (simp add: no_faults_def)
    from get_ready_artifacts_no_faults[OF this, of run_id]
    show "fst (get_ready_artifacts run_id (c\<lparr>db := (db c)\<lparr>workers := ws\<rparr>\<rparr>)) = Inr ?rows"
      by (simp add: select_ready_artifacts_def artifact_of_completed_task_workers)
  qed
  have dbc: "db ?c' = db c" by simp
  have nt: "tasks (db c) = [] \<longrightarrow> ?rows = []"
    by (simp add: select_ready_artifacts_no_tasks)
  show ?thesis
    by (rule exI[of _ ?rows], rule exI[of _ ?c'])
       (intro conjI r dbc d w nt set_select_ready_artifacts set_get_ready_artifacts_v1)
qed

text \<open>On the store state whose task row is completed the path is returned; on the store
  written with the store's own methods, which has no task row, nothing is.\<close>

theorem get_ready_artifacts_exact_witness:
  "no_faults (open_conn failed_but_completed [])
   \<and> (\<exists>rows c'. get_ready_artifacts ''R1'' (open_conn failed_but_completed []) = (Inr rows, c')
         \<and> set rows = {SqlText ''workers/W-A/output.txt''})
   \<and> no_faults reported_done
   \<and> map w_state (workers (db reported_done)) = [''done'']
   \<and> fst (get_ready_artifacts ''R1'' reported_done) = Inr []"
proof -
  have nf: "no_faults (open_conn failed_but_completed [])"
    by (simp add: no_faults_def open_conn_def)
  from get_ready_artifacts_exact[OF nf, of "''R1''" "[]"] obtain rows c' where
    r: "get_ready_artifacts ''R1'' (open_conn failed_but_completed []) = (Inr rows, c')"
    and s: "set rows =
               {p. \<exists>e \<in> set (events (db (open_conn failed_but_completed []))).
                     e_event_type e = ''artifact'' \<and> e_run_id e = ''R1''
                     \<and> json_extract_path (e_payload e) = Some p
                     \<and> (\<exists>t \<in> set (tasks (db (open_conn failed_but_completed []))).
                            e_task_id e = Some (t_id t) \<and> t_state t = Some ''completed'')}"
    by (elim exE conjE)
  have ev: "events (db (open_conn failed_but_completed [])) =
      [\<lparr>e_id = 1, e_timestamp = 7, e_run_id = ''R1'', e_worker_id = Some ''W-A'',
                   e_event_type = ''artifact'', e_task_id = Some ''A'',
                   e_payload = Some [(''path'', JStr ''workers/W-A/output.txt'')]\<rparr>]"
    by (simp add: open_conn_def failed_but_completed_def empty_store_def)
  have ts: "tasks (db (open_conn failed_but_completed [])) =
      [\<lparr>t_id = ''A'', t_run_id = ''R1'', t_description = Some ''build'',
                  t_state = Some ''completed'', t_assigned_worker = Some ''W-A'',
                  t_created_at = Some 1, t_completed_at = Some 8\<rparr>]"
    by (simp add: open_conn_def failed_but_completed_def empty_store_def)
  have "set rows = {SqlText ''workers/W-A/output.txt''}"
    unfolding s ev ts by (auto simp: json_extract_path_def)
  then have a: "\<exists>rows c'. get_ready_artifacts ''R1'' (open_conn failed_but_completed [])
                  = (Inr rows, c') \<and> set rows = {SqlText ''workers/W-A/output.txt''}"
    using r by blast
  have nfr: "no_faults reported_done" unfolding reported_done_eq by (simp add: no_faults_def)
  have nt: "tasks (db reported_done) = []"
    unfolding reported_done_eq by (simp add: empty_store_def)
  have ws: "map w_state (workers (db reported_done)) = [''done'']"
    unfolding reported_done_eq by (simp add: empty_store_def)
  from get_ready_artifacts_exact[OF nfr, of "''R1''" "[]"] obtain rows2 c2 where
    "get_ready_artifacts ''R1'' reported_done = (Inr rows2, c2)"
    "tasks (db reported_done) = [] \<longrightarrow> rows2 = []"
    by (elim exE conjE)
  then have b: "fst (get_ready_artifacts ''R1'' reported_done) = Inr []" using nt by simp
  show ?thesis by (intro conjI nf a nfr ws b)
qed

section \<open>Terminal worker states\<close>

definition terminal :: "string \<Rightarrow> bool" where
  "terminal st = (st = ''done'' \<or> st = ''error'' \<or> st = ''dead'')"

text \<open>The worker has a row and every row with its id is in a terminal state.\<close>

definition worker_terminal :: "store \<Rightarrow> string \<Rightarrow> bool" where
  "worker_terminal s wid =
     (list_ex (\<lambda>r. w_id r = wid) (workers s)
      \<and> list_all (\<lambda>r. w_id r \<noteq> wid \<or> terminal (w_state r)) (workers s))"

text \<open>A sequence of status updates: the arguments of each call, applied in order on one
  connection (a call that raises leaves the connection to the next one).\<close>

record status_update =
  u_now :: int
  u_worker_id :: string
  u_run_id :: string
  u_state :: "WorkerState option"
  u_progress :: "int option"
  u_task_id :: "string option"
  u_message :: "string option"

definition apply_update :: "status_update \<Rightarrow> conn \<Rightarrow> conn" where
  "apply_update u c =
     snd (update_worker_status (u_now u) (u_worker_id u) (u_run_id u) (u_state u) (u_progress u)
            (u_task_id u) (u_message u) c)"

definition apply_updates :: "status_update list \<Rightarrow> conn \<Rightarrow> conn" where
  "apply_updates us c = fold apply_update us c"

text \<open>The update is for another worker, passes no state, or passes a terminal one.\<close>

definition passes_no_live_state :: "string \<Rightarrow> status_update \<Rightarrow> bool" where
  "passes_no_live_state wid u =
     (u_worker_id u \<noteq> wid \<or> u_state u = None \<or> u_state u = Some WS_DONE
      \<or> u_state u = Some WS_ERROR \<or> u_state u = Some WS_DEAD)"

text \<open>The events that move a worker out of its state to a non-terminal one: a start
  event, and a progress event whose message contains \<open>waiting\<close>.\<close>

definition revives :: "string \<Rightarrow> Event \<Rightarrow> bool" where
  "revives wid e =
     (ev_w e = Some wid \<and> (ev_t e = M_START \<or> (ev_t e = M_PROGRESS \<and> says_waiting (ev_msg e))))"

lemma terminal_value:
  "st = WS_DONE \<or> st = WS_ERROR \<or> st = WS_DEAD \<Longrightarrow> terminal (WorkerState_value st)"
  by (auto simp: terminal_def)

lemma worker_terminal_update:
  assumes "worker_terminal s wid" "wid' \<noteq> wid \<or> st = None \<or> st = Some WS_DONE
      \<or> st = Some WS_ERROR \<or> st = Some WS_DEAD"
  shows "worker_terminal (snd (update_worker now wid' st p t m s)) wid"
proof -
  have row: "w_id (update_worker_row now st p t m r) = w_id r" for r
    by (simp add: update_worker_row_def)
  have st: "wid' = wid \<Longrightarrow> terminal (w_state r) \<Longrightarrow>
            terminal (w_state (update_worker_row now st p t m r))" for r
    using assms(2) by (auto simp: update_worker_row_def terminal_def split: option.splits)
  let ?f = "\<lambda>r. if w_id r = wid' then update_worker_row now st p t m r else r"
  have ws: "workers (snd (update_worker now wid' st p t m s)) = map ?f (workers s)"
    by (simp add: update_worker_def)
  have fid: "w_id (?f r) = w_id r" for r by (simp add: row)
  have fst: "w_id r = wid \<Longrightarrow> terminal (w_state r) \<Longrightarrow> terminal (w_state (?f r))" for r
    using st by simp
  from assms(1) obtain r where r: "r \<in> set (workers s)" "w_id r = wid"
    by (auto simp: worker_terminal_def list_ex_iff)
  have "?f r \<in> set (map ?f (workers s))" using r(1) by (simp only: set_map) (rule imageI)
  then have ex: "list_ex (\<lambda>r. w_id r = wid) (map ?f (workers s))"
    unfolding list_ex_iff using fid[of r] r(2) by blast
  have "w_id x \<noteq> wid \<or> terminal (w_state x)" if "x \<in> set (map ?f (workers s))" for x
  proof -
    from that obtain r' where r': "r' \<in> set (workers s)" "x = ?f r'" by auto
    have "w_id r' \<noteq> wid \<or> terminal (w_state r')"
      using assms(1) r'(1) by (auto simp: worker_terminal_def list_all_iff)
    then show ?thesis using fid[of r'] fst[of r'] r'(2) by metis
  qed
  then have "list_all (\<lambda>r. w_id r \<noteq> wid \<or> terminal (w_state r)) (map ?f (workers s))"
    unfolding list_all_iff by blast
  then show ?thesis using ex by (simp add: worker_terminal_def ws)
qed

lemma worker_terminal_insert:
  assumes "worker_terminal s wid" "\<not> fst (select_worker_exists wid' s)"
  shows "worker_terminal (snd (insert_worker now wid' run st p t m s)) wid"
proof -
  have "wid' \<noteq> wid" using assms by (auto simp: worker_terminal_def select_worker_exists_def)
  then show ?thesis
    using assms(1) by (auto simp: worker_terminal_def insert_worker_def list_ex_iff list_all_iff)
qed

lemma worker_terminal_apply_update:
  assumes "worker_terminal (db c) wid" "passes_no_live_state wid u"
  shows "worker_terminal (db (apply_update u c)) wid"
proof -
  let ?call = "update_worker_status (u_now u) (u_worker_id u) (u_run_id u) (u_state u)
                 (u_progress u) (u_task_id u) (u_message u) c"
  from update_worker_status_atomic[of "u_now u" "u_worker_id u" "u_run_id u" "u_state u"
      "u_progress u" "u_task_id u" "u_message u" c]
  consider "db (snd ?call) = db c"
    | "fst (select_worker_exists (u_worker_id u) (db c))"
      "db (snd ?call) = snd (update_worker (u_now u) (u_worker_id u) (u_state u) (u_progress u)
                               (u_task_id u) (u_message u) (db c))"
    | "\<not> fst (select_worker_exists (u_worker_id u) (db c))"
      "db (snd ?call) = snd (insert_worker (u_now u) (u_worker_id u) (u_run_id u) (u_state u)
                               (u_progress u) (u_task_id u) (u_message u) (db c))"
    by (cases "fst (select_worker_exists (u_worker_id u) (db c))") auto
  then show ?thesis
  proof cases
    case 1
    then show ?thesis using assms(1) by (simp add: apply_update_def)
  next
    case 2
    then show ?thesis
      using worker_terminal_update[OF assms(1), of "u_worker_id u" "u_state u"] assms(2)
      by (simp add: apply_update_def passes_no_live_state_def)
  next
    case 3
    then show ?thesis
      using worker_terminal_insert[OF assms(1) 3(1)] by (simp add: apply_update_def)
  qed
qed

lemma worker_terminal_apply_updates:
  "worker_terminal (db c) wid \<Longrightarrow> list_all (passes_no_live_state wid) us \<Longrightarrow>
     worker_terminal (db (apply_updates us c)) wid"
  unfolding apply_updates_def
  by (induction us arbitrary: c) (simp_all add: worker_terminal_apply_update)

lemma map_of_set_worker:
  "map_of (set_worker k v m) k' = (if k' = k then Some v else map_of m k')"
  by (induction m) auto

lemma transition_keeps_terminal:
  assumes "terminal (ws_state x)" "\<not> revives wid e" "ev_w e = Some wid"
  shows "terminal (ws_state (transition e x))"
  using assms
  by (cases "ev_t e") (auto simp: transition_def revives_def terminal_def)

text \<open>The accumulator holds the worker in a terminal state.\<close>

lemma apply_event_keeps_terminal:
  assumes "map_of (workers_map acc) wid = Some x" "terminal (ws_state x)" "\<not> revives wid e"
  shows "\<exists>x'. map_of (workers_map (apply_event e acc)) wid = Some x' \<and> terminal (ws_state x')"
proof (cases "truthy (ev_w e)")
  case False
  then show ?thesis using assms by (simp add: apply_event_def)
next
  case True
  then obtain k where k: "ev_w e = Some k" by (auto simp: truthy_def split: option.splits)
  show ?thesis
  proof (cases "k = wid")
    case False
    then show ?thesis
      using assms True k by (simp add: apply_event_def Let_def map_of_set_worker)
  next
    case same: True
    have "terminal (ws_state (transition e x))"
      using assms(2,3) k same by (intro transition_keeps_terminal[of x wid e]) simp_all
    then show ?thesis
      using assms(1) True k same by (simp add: apply_event_def Let_def map_of_set_worker)
  qed
qed

lemma fold_apply_event_keeps_terminal:
  "map_of (workers_map acc) wid = Some x \<Longrightarrow> terminal (ws_state x) \<Longrightarrow>
     list_all (\<lambda>e. \<not> revives wid e) log \<Longrightarrow>
     \<exists>x'. map_of (workers_map (fold apply_event log acc)) wid = Some x' \<and> terminal (ws_state x')"
proof (induction log arbitrary: acc x)
  case Nil
  then show ?case by simp
next
  case (Cons e log)
  from Cons.prems(3) have e: "\<not> revives wid e" and rest: "list_all (\<lambda>e. \<not> revives wid e) log"
    by simp_all
  from apply_event_keeps_terminal[OF Cons.prems(1,2) e] obtain x' where
    x': "map_of (workers_map (apply_event e acc)) wid = Some x'" "terminal (ws_state x')" by blast
  from Cons.IH[OF x' rest] show ?case by simp
qed

lemma log_state_keeps_terminal:
  assumes "log_state log1 wid = Some st" "terminal st" "list_all (\<lambda>e. \<not> revives wid e) log2"
  shows "\<exists>st'. log_state (log1 @ log2) wid = Some st' \<and> terminal st'"
proof -
  from assms(1) obtain x where x: "map_of (workers_map (status_of_log log1)) wid = Some x"
    "ws_state x = st" by (auto simp: log_state_def)
  have "status_of_log (log1 @ log2) = fold apply_event log2 (status_of_log log1)"
    by (simp add: status_of_log_def)
  moreover from fold_apply_event_keeps_terminal[OF x(1) _ assms(3)] assms(2) x(2)
  obtain x' where "map_of (workers_map (fold apply_event log2 (status_of_log log1))) wid = Some x'"
    "terminal (ws_state x')" by blast
  ultimately show ?thesis by (simp add: log_state_def)
qed

subsection \<open>What a call and an event do to a worker's state\<close>

text \<open>The states of the rows of a worker, in rowid order (\<open>workers.id\<close> is the primary
  key: at most one row in a table that the store has written).\<close>

definition worker_states :: "store \<Rightarrow> string \<Rightarrow> string list" where
  "worker_states s wid = map w_state (filter (\<lambda>r. w_id r = wid) (workers s))"

text \<open>The state that a returning call leaves: the passed one, or the old one when none
  is passed; for a worker without a row, the passed one or idle.\<close>

definition state_after :: "WorkerState option \<Rightarrow> string list \<Rightarrow> string list" where
  "state_after st olds =
     (if olds = [] then [case st of Some v \<Rightarrow> WorkerState_value v | None \<Rightarrow> ''idle'']
      else map (\<lambda>old. case st of Some v \<Rightarrow> WorkerState_value v | None \<Rightarrow> old) olds)"

lemma select_worker_exists_states:
  "fst (select_worker_exists w s) = (worker_states s w \<noteq> [])"
  by (auto simp: select_worker_exists_def worker_states_def list_ex_iff filter_empty_conv)

lemma worker_states_update_rows:
  "map w_state (filter (\<lambda>r. w_id r = wid)
      (map (\<lambda>r. if w_id r = wid' then update_worker_row now st p t m r else r) ws))
   = (if wid' = wid
      then map (\<lambda>old. case st of Some v \<Rightarrow> WorkerState_value v | None \<Rightarrow> old)
             (map w_state (filter (\<lambda>r. w_id r = wid) ws))
      else map w_state (filter (\<lambda>r. w_id r = wid) ws))"
  by (induction ws) (auto simp: update_worker_row_def split: option.splits)

lemma worker_states_update:
  "worker_states (snd (update_worker now wid' st p t m s)) wid =
     (if wid' = wid
      then map (\<lambda>old. case st of Some v \<Rightarrow> WorkerState_value v | None \<Rightarrow> old) (worker_states s wid)
      else worker_states s wid)"
  unfolding worker_states_def update_worker_def using worker_states_update_rows by simp

lemma worker_states_insert:
  "worker_states (snd (insert_worker now wid' run st p t m s)) wid =
     (if wid' = wid
      then worker_states s wid @ [case st of Some v \<Rightarrow> WorkerState_value v | None \<Rightarrow> ''idle'']
      else worker_states s wid)"
  by (simp add: worker_states_def insert_worker_def split: option.splits)

lemma update_worker_status_states:
  "case update_worker_status now wid' run st p t m c of
     (Inl e, c') \<Rightarrow> worker_states (db c') wid = worker_states (db c) wid
   | (Inr u, c') \<Rightarrow>
       worker_states (db c') wid =
         (if wid' = wid then state_after st (worker_states (db c) wid)
          else worker_states (db c) wid)"
proof -
  from update_worker_status_atomic[of now wid' run st p t m c]
  show ?thesis
  proof
    assume "\<exists>e c'. update_worker_status now wid' run st p t m c = (Inl e, c') \<and> db c' = db c"
    then show ?thesis by auto
  next
    assume "\<exists>c'. update_worker_status now wid' run st p t m c = (Inr (), c') \<and> txn c' = None
         \<and> txn c = None
         \<and> db c' = (if fst (select_worker_exists wid' (db c))
                     then snd (update_worker now wid' st p t m (db c))
                     else snd (insert_worker now wid' run st p t m (db c)))"
    then obtain c' where r: "update_worker_status now wid' run st p t m c = (Inr (), c')"
      and d: "db c' = (if worker_states (db c) wid' \<noteq> []
                     then snd (update_worker now wid' st p t m (db c))
                     else snd (insert_worker now wid' run st p t m (db c)))"
      by (auto simp: select_worker_exists_states)
    have "worker_states (db c') wid =
         (if wid' = wid then state_after st (worker_states (db c) wid)
          else worker_states (db c) wid)"
      unfolding d by (simp add: worker_states_update worker_states_insert state_after_def)
    then show ?thesis using r by simp
  qed
qed

lemma status_of_log_snoc:
  "status_of_log (log @ [e]) = apply_event e (status_of_log log)"
  by (simp add: status_of_log_def)

lemma log_state_revived:
  assumes "revives wid e" "wid \<noteq> []"
  shows "log_state (log @ [e]) wid = Some (if ev_t e = M_START then ''running'' else ''waiting'')"
proof -
  have w: "ev_w e = Some wid" "truthy (ev_w e)"
    using assms by (simp_all add: revives_def truthy_def)
  have "ws_state (transition e x) = (if ev_t e = M_START then ''running'' else ''waiting'')" for x
    using assms(1) by (auto simp: revives_def transition_def)
  then show ?thesis
    using w by (simp add: log_state_def status_of_log_snoc apply_event_def Let_def
        map_of_set_worker)
qed

subsection \<open>Claim C2\<close>

definition report_done_update :: status_update where
  "report_done_update =
     \<lparr>u_now = 1, u_worker_id = ''W-A'', u_run_id = ''R1'', u_state = Some WS_DONE,
      u_progress = Some 100, u_task_id = None, u_message = Some ''Completed successfully''\<rparr>"

text \<open>The update of \<^verbatim>\<open>Worker.send_heartbeat\<close>: state busy, nothing else.\<close>

definition heartbeat_update :: status_update where
  "heartbeat_update =
     \<lparr>u_now = 2, u_worker_id = ''W-A'', u_run_id = ''R1'', u_state = Some WS_BUSY,
      u_progress = None, u_task_id = None, u_message = None\<rparr>"

definition error_update :: status_update where
  "error_update =
     \<lparr>u_now = 3, u_worker_id = ''W-A'', u_run_id = ''R1'', u_state = Some WS_ERROR,
      u_progress = Some 0, u_task_id = None, u_message = Some ''late failure''\<rparr>"

definition log_event :: "models_EventType \<Rightarrow> Event" where
  "log_event k = \<lparr>ev_t = k, ev_ts = ''2025-01-01T00:00:00'', ev_w = Some ''W-A'',
                  ev_task = Some ''A'', ev_msg = None, ev_path = None, ev_pct = None\<rparr>"

lemma done_conn:
  "apply_update report_done_update (open_conn empty_store []) =
     \<lparr>db = empty_store\<lparr>workers :=
            [\<lparr>w_id = ''W-A'', w_run_id = ''R1'', w_task_id = None, w_state = ''done'',
              w_pid = None, w_started_at = Some 1, w_last_heartbeat = Some 1,
              w_progress = Some 100, w_last_message = Some ''Completed successfully''\<rparr>]\<rparr>,
      txn = None, stmts = 4, faults = []\<rparr>"
  by (simp add: apply_update_def report_done_update_def update_worker_status_def transaction_def
      sql_begin_def sql_commit_def execute_def db_bind_def faulty_def tick_def open_conn_def
      empty_store_def select_worker_exists_def insert_worker_def)

text \<open>
  Claim C2 as stated fails. In the store, a worker recorded as done is busy again after
  one more \<open>update_worker_status\<close> with state busy; in the log-based projection, a
  worker that is done is running again after a later start event.
\<close>

theorem terminal_state_reverts:
  "worker_terminal (db (apply_update report_done_update (open_conn empty_store []))) ''W-A''
   \<and> map w_state (workers (db (apply_updates [report_done_update, heartbeat_update]
                                  (open_conn empty_store [])))) = [''busy'']
   \<and> \<not> worker_terminal (db (apply_updates [report_done_update, heartbeat_update]
                               (open_conn empty_store []))) ''W-A''
   \<and> log_state [log_event M_START, log_event M_DONE] ''W-A'' = Some ''done''
   \<and> log_state [log_event M_START, log_event M_DONE, log_event M_START] ''W-A''
       = Some ''running''"
proof -
  have a: "worker_terminal (db (apply_update report_done_update (open_conn empty_store []))) ''W-A''"
    unfolding done_conn by (simp add: worker_terminal_def terminal_def)
  have b: "workers (db (apply_updates [report_done_update, heartbeat_update]
                                  (open_conn empty_store []))) =
           [\<lparr>w_id = ''W-A'', w_run_id = ''R1'', w_task_id = None, w_state = ''busy'',
              w_pid = None, w_started_at = Some 1, w_last_heartbeat = Some 2,
              w_progress = Some 100, w_last_message = Some ''Completed successfully''\<rparr>]"
    by (simp add: apply_updates_def done_conn)
       (simp add: apply_update_def heartbeat_update_def update_worker_status_def transaction_def
      sql_begin_def sql_commit_def execute_def db_bind_def faulty_def tick_def
      empty_store_def select_worker_exists_def update_worker_def update_worker_row_def)
  have c: "log_state [log_event M_START, log_event M_DONE] ''W-A'' = Some ''done''"
    by (simp add: log_state_def status_of_log_def apply_event_def log_event_def truthy_def
        init_worker_def transition_def Let_def)
  have d: "log_state [log_event M_START, log_event M_DONE, log_event M_START] ''W-A''
       = Some ''running''"
    by (simp add: log_state_def status_of_log_def apply_event_def log_event_def truthy_def
        init_worker_def transition_def Let_def)
  have b1: "map w_state (workers (db (apply_updates [report_done_update, heartbeat_update]
                                  (open_conn empty_store [])))) = [''busy'']"
    unfolding b by simp
  have b2: "\<not> worker_terminal (db (apply_updates [report_done_update, heartbeat_update]
                               (open_conn empty_store []))) ''W-A''"
    unfolding worker_terminal_def b by (simp add: terminal_def)
  show ?thesis by (intro conjI a b1 b2 c d)
qed

text \<open>
  Claim C2, amended. Once a worker's rows are in a terminal state, they stay in a
  terminal state under every sequence of \<open>update_worker_status\<close> calls (failing or not)
  each of which is for another worker, passes no state or passes a terminal state. A
  single call for a worker leaves the states of every other worker as they were; when it
  raises, also those of its own worker; when it returns, it has set the state of its
  worker to the passed state whatever the state was before, terminal or not (without a
  passed state the state is kept, and a worker without a row gets one in the passed
  state or idle). Under \<open>compute_status\<close>, a worker that is done or error stays done
  or error under every later run of events that holds for it neither a start event nor a
  progress event whose message contains \<open>waiting\<close>; a start event for it makes it
  running and such a progress event makes it waiting, whatever its state was before.
\<close>

theorem terminal_state_kept:
  "(worker_terminal (db c) wid \<and> list_all (passes_no_live_state wid) us
      \<longrightarrow> worker_terminal (db (apply_updates us c)) wid)
   \<and> (log_state log1 wid = Some st \<and> terminal st \<and> list_all (\<lambda>e. \<not> revives wid e) log2
      \<longrightarrow> (\<exists>st'. log_state (log1 @ log2) wid = Some st' \<and> terminal st'))
   \<and> (case update_worker_status now wid' run new_state p t m c of
        (Inl e, c') \<Rightarrow> worker_states (db c') wid = worker_states (db c) wid
      | (Inr u, c') \<Rightarrow>
          worker_states (db c') wid =
            (if wid' = wid then state_after new_state (worker_states (db c) wid)
             else worker_states (db c) wid))
   \<and> (revives wid e \<and> wid \<noteq> []
      \<longrightarrow> log_state (log1 @ [e]) wid
            = Some (if ev_t e = M_START then ''running'' else ''waiting''))"
proof (intro conjI)
  show "worker_terminal (db c) wid \<and> list_all (passes_no_live_state wid) us
      \<longrightarrow> worker_terminal (db (apply_updates us c)) wid"
    using worker_terminal_apply_updates[of c wid us] by blast
  show "log_state log1 wid = Some st \<and> terminal st \<and> list_all (\<lambda>e. \<not> revives wid e) log2
      \<longrightarrow> (\<exists>st'. log_state (log1 @ log2) wid = Some st' \<and> terminal st')"
    using log_state_keeps_terminal[of log1 wid st log2] by blast
  show "case update_worker_status now wid' run new_state p t m c of
        (Inl e, c') \<Rightarrow> worker_states (db c') wid = worker_states (db c) wid
      | (Inr u, c') \<Rightarrow>
          worker_states (db c') wid =
            (if wid' = wid then state_after new_state (worker_states (db c) wid)
             else worker_states (db c) wid)"
    by (rule update_worker_status_states)
  show "revives wid e \<and> wid \<noteq> []
      \<longrightarrow> log_state (log1 @ [e]) wid
            = Some (if ev_t e = M_START then ''running'' else ''waiting'')"
    using log_state_revived[of wid e log1] by blast
qed

text \<open>A worker recorded as done: a later error report keeps it terminal and sets its
  state to error; in the log, a done worker stays terminal under an artifact and an error
  event and is running after a start event.\<close>

theorem terminal_state_kept_witness:
  "worker_terminal (db (apply_update report_done_update (open_conn empty_store []))) ''W-A''
   \<and> list_all (passes_no_live_state ''W-A'') [error_update]
   \<and> worker_terminal (db (apply_updates [error_update]
        (apply_update report_done_update (open_conn empty_store [])))) ''W-A''
   \<and> log_state [log_event M_START, log_event M_DONE] ''W-A'' = Some ''done''
   \<and> terminal ''done''
   \<and> list_all (\<lambda>e. \<not> revives ''W-A'' e) [log_event M_ARTIFACT, log_event M_ERROR]
   \<and> (\<exists>st'. log_state ([log_event M_START, log_event M_DONE]
                         @ [log_event M_ARTIFACT, log_event M_ERROR]) ''W-A'' = Some st'
            \<and> terminal st')
   \<and> worker_states (db (apply_update report_done_update (open_conn empty_store []))) ''W-A''
       = [''done'']
   \<and> fst (update_worker_status 3 ''W-A'' ''R1'' (Some WS_ERROR) (Some 0) None
             (Some ''late failure'')
             (apply_update report_done_update (open_conn empty_store []))) = Inr ()
   \<and> worker_states (db (snd (update_worker_status 3 ''W-A'' ''R1'' (Some WS_ERROR) (Some 0)
             None (Some ''late failure'')
             (apply_update report_done_update (open_conn empty_store []))))) ''W-A''
       = [''error'']
   \<and> revives ''W-A'' (log_event M_START)
   \<and> log_state ([log_event M_START, log_event M_DONE] @ [log_event M_START]) ''W-A''
       = Some ''running''"
proof -
  let ?c = "apply_update report_done_update (open_conn empty_store [])"
  let ?call = "update_worker_status 3 ''W-A'' ''R1'' (Some WS_ERROR) (Some 0) None
                 (Some ''late failure'') ?c"
  have a: "worker_terminal (db ?c) ''W-A''"
    unfolding done_conn by (simp add: worker_terminal_def terminal_def)
  have b: "list_all (passes_no_live_state ''W-A'') [error_update]"
    by (simp add: passes_no_live_state_def error_update_def)
  have c: "log_state [log_event M_START, log_event M_DONE] ''W-A'' = Some ''done''"
    by (simp add: log_state_def status_of_log_def apply_event_def log_event_def truthy_def
        init_worker_def transition_def Let_def)
  have d: "terminal ''done''" by (simp add: terminal_def)
  have e: "list_all (\<lambda>e. \<not> revives ''W-A'' e) [log_event M_ARTIFACT, log_event M_ERROR]"
    by (simp add: revives_def log_event_def)
  have h: "worker_states (db ?c) ''W-A'' = [''done'']"
    unfolding done_conn by (simp add: worker_states_def empty_store_def)
  have i: "fst ?call = Inr ()"
    unfolding done_conn
    by (simp add: update_worker_status_def transaction_def
      sql_begin_def sql_commit_def execute_def db_bind_def faulty_def tick_def
      empty_store_def select_worker_exists_def update_worker_def)
  have k: "revives ''W-A'' (log_event M_START)" by (simp add: revives_def log_event_def)
  note t = terminal_state_kept[where c="?c" and wid="''W-A''" and us="[error_update]"
      and ?log1.0="[log_event M_START, log_event M_DONE]" and st="''done''"
      and ?log2.0="[log_event M_ARTIFACT, log_event M_ERROR]" and now=3 and wid'="''W-A''"
      and run="''R1''" and new_state="Some WS_ERROR" and p="Some 0" and t=None
      and m="Some ''late failure''" and e="log_event M_START"]
  have f: "worker_terminal (db (apply_updates [error_update] ?c)) ''W-A''"
    using t[THEN conjunct1] a b by (rule mp[OF _ conjI])
  have g: "\<exists>st'. log_state ([log_event M_START, log_event M_DONE]
                         @ [log_event M_ARTIFACT, log_event M_ERROR]) ''W-A'' = Some st'
            \<and> terminal st'"
    using t[THEN conjunct2, THEN conjunct1] c d e by (rule mp[OF _ conjI[OF _ conjI]])
  have "worker_states (db (snd ?call)) ''W-A'' = state_after (Some WS_ERROR) [''done'']"
    using t[THEN conjunct2, THEN conjunct2, THEN conjunct1] i h by (cases ?call) auto
  then have j: "worker_states (db (snd ?call)) ''W-A'' = [''error'']"
    by (simp add: state_after_def)
  have l: "log_state ([log_event M_START, log_event M_DONE] @ [log_event M_START]) ''W-A''
       = Some ''running''"
    using t[THEN conjunct2, THEN conjunct2, THEN conjunct2] k by (simp add: log_event_def)
  show ?thesis by (intro conjI a b f c d e g h i j k l)
qed

section \<open>The worker (worker.py)\<close>

subsection \<open>The process environment\<close>

text \<open>
  What a worker or the orchestrator acts on: the store connection and the commands of
  the subprocesses launched so far. An action returns a value or raises, and returns
  the environment.
\<close>

record runtime =
  rt_conn :: conn
  rt_launched :: "string list"

definition act_return :: "'a \<Rightarrow> 's \<Rightarrow> (py_error + 'a) \<times> 's" where
  "act_return v s = (Inr v, s)"

definition act_raise :: "py_error \<Rightarrow> 's \<Rightarrow> (py_error + 'a) \<times> 's" where
  "act_raise e s = (Inl e, s)"

definition act_bind ::
  "('s \<Rightarrow> (py_error + 'a) \<times> 's) \<Rightarrow> ('a \<Rightarrow> 's \<Rightarrow> (py_error + 'b) \<times> 's)
     \<Rightarrow> 's \<Rightarrow> (py_error + 'b) \<times> 's" where
  "act_bind m f s = (case m s of (Inl e, s') \<Rightarrow> (Inl e, s') | (Inr v, s') \<Rightarrow> f v s')"

text \<open>\<^verbatim>\<open>try: body except ...: handler\<close> with a handler for every exception.\<close>

definition try_except ::
  "('s \<Rightarrow> (py_error + 'a) \<times> 's) \<Rightarrow> (py_error \<Rightarrow> 's \<Rightarrow> (py_error + 'a) \<times> 's)
     \<Rightarrow> 's \<Rightarrow> (py_error + 'a) \<times> 's" where
  "try_except body handler s =
     (case body s of (Inl e, s') \<Rightarrow> handler e s' | (Inr v, s') \<Rightarrow> (Inr v, s'))"

definition on_store ::
  "'a db_action \<Rightarrow> 'z runtime_scheme \<Rightarrow> (py_error + 'a) \<times> 'z runtime_scheme" where
  "on_store a s = (case a (rt_conn s) of (r, c') \<Rightarrow> (r, s\<lparr>rt_conn := c'\<rparr>))"

text \<open>The outcome of the subprocess, as \<^verbatim>\<open>subprocess.run\<close> and
  \<^verbatim>\<open>asyncio.wait_for(proc.communicate())\<close> report it: completed with a return code,
  standard output and standard error; timed out; or failed to run.\<close>

datatype proc_result = Completed int string string | TimedOut | Failed string

subsection \<open>The store as the worker and the orchestrator call it\<close>

text \<open>The attributes of an \<^verbatim>\<open>EventStoreV2\<close> object: the two set in \<^verbatim>\<open>__init__\<close>, the
  property and the methods of the class.\<close>

definition EventStoreV2_attributes :: "string list" where
  "EventStoreV2_attributes =
     [''db_path'', ''_local'', ''conn'', ''transaction'', ''init_schema'', ''append_event'',
      ''get_events'', ''update_worker_status'', ''get_worker_status'', ''get_all_workers'',
      ''detect_dead_workers'', ''create_block'', ''get_active_blocks'', ''get_ready_artifacts'',
      ''close'']"

text \<open>\<^verbatim>\<open>self.store.<name>\<close>: the attribute lookup.\<close>

definition store_attribute :: "string \<Rightarrow> 's \<Rightarrow> (py_error + unit) \<times> 's" where
  "store_attribute attr =
     (if attr \<in> set EventStoreV2_attributes then act_return ()
      else act_raise (no_attribute ''EventStoreV2'' attr))"

text \<open>\<^verbatim>\<open>def update_worker_status(self, worker_id, run_id, state=None, progress=None,
  task_id=None, message=None)\<close>.\<close>

definition update_worker_status_params :: "string list" where
  "update_worker_status_params =
     [''worker_id'', ''run_id'', ''state'', ''progress'', ''task_id'', ''message'']"

definition update_worker_status_required :: "string list" where
  "update_worker_status_required = [''worker_id'', ''run_id'']"

text \<open>
  Every call of \<^verbatim>\<open>update_worker_status\<close> in worker.py and orchestrator.py has the
  shape \<^verbatim>\<open>update_worker_status(worker_id=..., state=..., progress=..., last_message=...)\<close>.
  The interpreter binds the keywords before it enters the body; with these keywords the
  binding fails, so no such call reaches the body (the last branch).
\<close>

definition status_call_keywords :: "string list" where
  "status_call_keywords = [''worker_id'', ''state'', ''progress'', ''last_message'']"

definition call_update_worker_status :: "'s \<Rightarrow> (py_error + unit) \<times> 's" where
  "call_update_worker_status =
     (case bind_error ''EventStoreV2.update_worker_status'' update_worker_status_params
             update_worker_status_required status_call_keywords of
        Some e \<Rightarrow> act_raise e
      | None \<Rightarrow> act_return ())"

text \<open>\<^verbatim>\<open>EventStoreV2.init_schema\<close>: one transaction of thirteen \<^verbatim>\<open>CREATE ... IF NOT
  EXISTS\<close> statements, none of which changes a row.\<close>

fun execute_each :: "nat \<Rightarrow> unit db_action" where
  "execute_each 0 = db_return ()"
| "execute_each (Suc n) = db_bind (execute (\<lambda>s. ((), s))) (\<lambda>_. execute_each n)"

definition init_schema :: "unit db_action" where
  "init_schema = transaction (execute_each 13)"

subsection \<open>\<^verbatim>\<open>Worker\<close>\<close>

record Worker =
  wk_run_id :: string
  wk_worker_id :: string
  wk_task_id :: string

text \<open>The calls \<^verbatim>\<open>self.store.append_event(run_id=..., worker_id=..., event_type=
  EventType.X.value, task_id=..., payload=...)\<close>: the event type is passed as the string
  value of the enum member.\<close>

definition worker_append_event ::
  "int \<Rightarrow> Worker \<Rightarrow> string \<Rightarrow> payload \<Rightarrow> 'z runtime_scheme \<Rightarrow> (py_error + nat) \<times> 'z runtime_scheme"
  where
  "worker_append_event now self event_type p =
     on_store (append_event now (Str event_type) (wk_run_id self) (Some (wk_worker_id self))
                 (Some (wk_task_id self)) (Some p))"

text \<open>\<^verbatim>\<open>Worker.__init__\<close>: opens the store and calls \<^verbatim>\<open>self.store.create_worker\<close>.\<close>

definition Worker_init ::
  "string \<Rightarrow> string \<Rightarrow> string \<Rightarrow> 'z runtime_scheme \<Rightarrow> (py_error + Worker) \<times> 'z runtime_scheme"
  where
  "Worker_init run_id worker_id task_id =
     act_bind (on_store init_schema)
       (\<lambda>_. act_bind (store_attribute ''create_worker'')
          (\<lambda>_. act_return \<lparr>wk_run_id = run_id, wk_worker_id = worker_id, wk_task_id = task_id\<rparr>))"

definition update_progress ::
  "int \<Rightarrow> Worker \<Rightarrow> int \<Rightarrow> string \<Rightarrow> 'z runtime_scheme \<Rightarrow> (py_error + unit) \<times> 'z runtime_scheme"
  where
  "update_progress now self percent message =
     act_bind (worker_append_event now self ''progress''
                 [(''percent'', JInt percent), (''message'', JStr message)])
       (\<lambda>_. call_update_worker_status)"

definition report_artifact ::
  "int \<Rightarrow> Worker \<Rightarrow> string \<Rightarrow> 'z runtime_scheme \<Rightarrow> (py_error + unit) \<times> 'z runtime_scheme"
  where
  "report_artifact now self path =
     act_bind (worker_append_event now self ''artifact'' [(''path'', JStr path)])
       (\<lambda>_. act_return ())"

definition report_error ::
  "int \<Rightarrow> Worker \<Rightarrow> string \<Rightarrow> 'z runtime_scheme \<Rightarrow> (py_error + unit) \<times> 'z runtime_scheme"
  where
  "report_error now self error =
     act_bind (worker_append_event now self ''error'' [(''error'', JStr error)])
       (\<lambda>_. call_update_worker_status)"

definition report_done ::
  "int \<Rightarrow> Worker \<Rightarrow> 'z runtime_scheme \<Rightarrow> (py_error + unit) \<times> 'z runtime_scheme"
  where
  "report_done now self =
     act_bind (worker_append_event now self ''done'' [(''success'', JBool True)])
       (\<lambda>_. call_update_worker_status)"

text \<open>\<^verbatim>\<open>subprocess.run(command, shell=True, ..., timeout=timeout)\<close>.\<close>

definition subprocess_run ::
  "string \<Rightarrow> proc_result \<Rightarrow> 'z runtime_scheme
     \<Rightarrow> (py_error + int \<times> string \<times> string) \<times> 'z runtime_scheme" where
  "subprocess_run cmd result s =
     (case result of
        Failed m \<Rightarrow> (Inl (OSError m), s)
      | TimedOut \<Rightarrow> (Inl TimeoutExpired, s\<lparr>rt_launched := rt_launched s @ [cmd]\<rparr>)
      | Completed rc out err \<Rightarrow> (Inr (rc, out, err), s\<lparr>rt_launched := rt_launched s @ [cmd]\<rparr>))"

text \<open>
  \<^verbatim>\<open>Worker.execute_command\<close>. The start event and the first progress report come
  before the \<^verbatim>\<open>try\<close>; the handlers are \<^verbatim>\<open>except subprocess.TimeoutExpired\<close> and
  \<^verbatim>\<open>except Exception\<close>. The files \<^verbatim>\<open>output.txt\<close> and \<^verbatim>\<open>error.txt\<close> written
  between the progress report and the artifact report are no part of the environment.
\<close>

definition execute_command ::
  "int \<Rightarrow> Worker \<Rightarrow> string \<Rightarrow> string \<Rightarrow> int \<Rightarrow> proc_result \<Rightarrow> 'z runtime_scheme
     \<Rightarrow> (py_error + bool) \<times> 'z runtime_scheme" where
  "execute_command now self cmd working_dir timeout_s result =
     act_bind (worker_append_event now self ''start'' [(''command'', JStr cmd)])
       (\<lambda>_. act_bind (update_progress now self 0 ''Starting...'')
          (\<lambda>_. try_except
             (act_bind (update_progress now self 10 ''Executing command...'')
                (\<lambda>_. act_bind (subprocess_run cmd result)
                   (\<lambda>(returncode, out, err).
                      act_bind (update_progress now self 90
                                  ''Command completed, processing output...'')
                        (\<lambda>_. act_bind (report_artifact now self (working_dir @ ''/output.txt''))
                           (\<lambda>_. if returncode = 0
                                 then act_bind (report_done now self) (\<lambda>_. act_return True)
                                 else act_bind
                                        (report_error now self
                                           (''Command exited with code '' @ str_int returncode))
                                        (\<lambda>_. act_return False))))))
             (\<lambda>e. case e of
                     TimeoutExpired \<Rightarrow>
                       act_bind
                         (report_error now self
                            (''Command timed out after '' @ str_int timeout_s @ ''s''))
                         (\<lambda>_. act_return False)
                   | _ \<Rightarrow>
                       act_bind (report_error now self (''Exception: '' @ exc_str e))
                         (\<lambda>_. act_return False))))"

subsection \<open>\<^verbatim>\<open>Worker.execute_command\<close> over any store object\<close>











section \<open>The orchestrator (orchestrator.py)\<close>

record orch = runtime +
  o_run_id :: string
  o_run_dir :: string
  o_task_defs :: "TaskDefinition list"
  o_batches :: "TaskDefinition list list"

record task_result =
  r_task :: string
  r_worker :: string
  r_success :: bool
  r_output :: "string option"
  r_error :: "string option"

fun for_each :: "'a list \<Rightarrow> ('a \<Rightarrow> 's \<Rightarrow> (py_error + unit) \<times> 's) \<Rightarrow> 's \<Rightarrow> (py_error + unit) \<times> 's"
  where
  "for_each [] f = act_return ()"
| "for_each (x # xs) f = act_bind (f x) (\<lambda>_. for_each xs f)"

fun collect :: "'a list \<Rightarrow> ('a \<Rightarrow> 's \<Rightarrow> (py_error + 'b) \<times> 's) \<Rightarrow> 's \<Rightarrow> (py_error + 'b list) \<times> 's"
  where
  "collect [] f = act_return []"
| "collect (x # xs) f = act_bind (f x) (\<lambda>y. act_bind (collect xs f) (\<lambda>ys. act_return (y # ys)))"

subsection \<open>\<^verbatim>\<open>_create_plan\<close>\<close>

text \<open>The dataclass \<^verbatim>\<open>models.Task\<close>: fields \<^verbatim>\<open>id\<close>, \<^verbatim>\<open>description\<close>, \<^verbatim>\<open>deps\<close>,
  \<^verbatim>\<open>inputs\<close>, \<^verbatim>\<open>outputs\<close>, \<^verbatim>\<open>worker_hint\<close>, the first two without default. The plan
  builds each task as \<^verbatim>\<open>Task(id=..., description=..., dependencies=..., inputs={},
  outputs={}, worker_hint=None)\<close>.\<close>

definition Task_fields :: "string list" where
  "Task_fields = [''id'', ''description'', ''deps'', ''inputs'', ''outputs'', ''worker_hint'']"

definition Task_required :: "string list" where
  "Task_required = [''id'', ''description'']"

definition plan_task_keywords :: "string list" where
  "plan_task_keywords =
     [''id'', ''description'', ''dependencies'', ''inputs'', ''outputs'', ''worker_hint'']"

definition construct_Task :: "TaskDefinition \<Rightarrow> 's \<Rightarrow> (py_error + unit) \<times> 's" where
  "construct_Task task_def =
     (case bind_error ''Task.__init__'' Task_fields Task_required plan_task_keywords of
        Some e \<Rightarrow> act_raise e
      | None \<Rightarrow> act_return ())"

text \<open>One \<^verbatim>\<open>Task\<close> per task of every batch, then \<^verbatim>\<open>self.store.create_plan(...)\<close>.\<close>

definition create_plan :: "orch \<Rightarrow> (py_error + unit) \<times> orch" where
  "create_plan self =
     act_bind (for_each (concat (o_batches self)) construct_Task)
       (\<lambda>_. store_attribute ''create_plan'') self"

subsection \<open>\<^verbatim>\<open>_spawn_worker\<close>, \<^verbatim>\<open>_execute_task\<close>, \<^verbatim>\<open>_execute_batch\<close>\<close>

definition orch_append_event ::
  "int \<Rightarrow> string \<Rightarrow> string \<Rightarrow> string \<Rightarrow> string \<Rightarrow> payload \<Rightarrow> orch \<Rightarrow> (py_error + nat) \<times> orch"
  where
  "orch_append_event now run_id worker_id event_type task_id p =
     on_store (append_event now (Str event_type) run_id (Some worker_id) (Some task_id) (Some p))"

definition spawn_worker :: "int \<Rightarrow> TaskDefinition \<Rightarrow> orch \<Rightarrow> (py_error + string) \<times> orch" where
  "spawn_worker now task_def self =
     (let worker_id = ''W-'' @ name task_def in
      act_bind (store_attribute ''create_worker'')
        (\<lambda>_. act_bind
                (orch_append_event now (o_run_id self) worker_id ''start'' (name task_def)
                   [(''command'', JStr (command task_def)), (''prompt'', JStr (prompt task_def))])
                (\<lambda>_. act_bind call_update_worker_status (\<lambda>_. act_return worker_id))) self)"

text \<open>\<^verbatim>\<open>asyncio.create_subprocess_shell\<close> and
  \<^verbatim>\<open>asyncio.wait_for(proc.communicate(), timeout)\<close>.\<close>

definition create_subprocess_shell ::
  "string \<Rightarrow> proc_result \<Rightarrow> 'z runtime_scheme \<Rightarrow> (py_error + unit) \<times> 'z runtime_scheme" where
  "create_subprocess_shell cmd result s =
     (case result of
        Failed m \<Rightarrow> (Inl (OSError m), s)
      | _ \<Rightarrow> (Inr (), s\<lparr>rt_launched := rt_launched s @ [cmd]\<rparr>))"

definition wait_for_communicate ::
  "proc_result \<Rightarrow> 's \<Rightarrow> (py_error + int \<times> string \<times> string) \<times> 's" where
  "wait_for_communicate result =
     (case result of
        Completed rc out err \<Rightarrow> act_return (rc, out, err)
      | TimedOut \<Rightarrow> act_raise TimeoutExpired
      | Failed m \<Rightarrow> act_raise (OSError m))"

definition shell_command :: "TaskDefinition \<Rightarrow> string" where
  "shell_command task_def =
     (if prompt task_def \<noteq> []
      then ''echo \"Task: '' @ name task_def @ ''\" && '' @ command task_def
      else command task_def)"

definition report_task_error ::
  "int \<Rightarrow> TaskDefinition \<Rightarrow> string \<Rightarrow> string \<Rightarrow> orch \<Rightarrow> (py_error + unit) \<times> orch" where
  "report_task_error now task_def worker_id error_msg self =
     act_bind
       (orch_append_event now (o_run_id self) worker_id ''error'' (name task_def)
          [(''error'', JStr error_msg)])
       (\<lambda>_. call_update_worker_status) self"

definition execute_task ::
  "int \<Rightarrow> TaskDefinition \<Rightarrow> string \<Rightarrow> proc_result \<Rightarrow> orch \<Rightarrow> (py_error + task_result) \<times> orch"
  where
  "execute_task now task_def worker_id result self =
     try_except
       (act_bind (create_subprocess_shell (shell_command task_def) result)
          (\<lambda>_. try_except
             (act_bind (wait_for_communicate result)
                (\<lambda>(returncode, out, err).
                   act_bind
                     (if returncode = 0
                      then act_bind
                             (orch_append_event now (o_run_id self) worker_id ''artifact''
                                (name task_def)
                                [(''path'', JStr (o_run_dir self @ ''/workers/'' @ worker_id
                                                   @ ''/output.txt''))])
                             (\<lambda>_. act_bind
                                     (orch_append_event now (o_run_id self) worker_id ''done''
                                        (name task_def) [(''success'', JBool True)])
                                     (\<lambda>_. call_update_worker_status))
                      else report_task_error now task_def worker_id
                             (if err \<noteq> [] then err else ''Command failed''))
                     (\<lambda>_. act_return
                             \<lparr>r_task = name task_def, r_worker = worker_id,
                              r_success = (returncode = 0), r_output = Some out,
                              r_error = (if err \<noteq> [] then Some err else None)\<rparr>)))
             (\<lambda>e. case e of
                     TimeoutExpired \<Rightarrow>
                       act_bind
                         (report_task_error now task_def worker_id
                            (''Task timed out after '' @ str_int (timeout task_def) @ ''s''))
                         (\<lambda>_. act_return
                                 \<lparr>r_task = name task_def, r_worker = worker_id,
                                  r_success = False, r_output = None,
                                  r_error = Some (''Task timed out after ''
                                                    @ str_int (timeout task_def) @ ''s'')\<rparr>)
                   | _ \<Rightarrow> act_raise e)))
       (\<lambda>e. act_bind (report_task_error now task_def worker_id (''Exception: '' @ exc_str e))
               (\<lambda>_. act_return
                       \<lparr>r_task = name task_def, r_worker = worker_id, r_success = False,
                        r_output = None, r_error = Some (''Exception: '' @ exc_str e)\<rparr>))
       self"

text \<open>
  \<^verbatim>\<open>_execute_batch\<close>: the workers are spawned one after the other, then the tasks run
  under \<^verbatim>\<open>asyncio.gather\<close>; the model runs them in batch order and, like
  \<^verbatim>\<open>gather\<close>, raises the first exception.
\<close>

definition execute_batch ::
  "int \<Rightarrow> (TaskDefinition \<Rightarrow> proc_result) \<Rightarrow> TaskDefinition list \<Rightarrow> orch
     \<Rightarrow> (py_error + task_result list) \<times> orch" where
  "execute_batch now proc batch =
     act_bind (collect batch (\<lambda>task_def. act_bind (spawn_worker now task_def)
                                            (\<lambda>worker_id. act_return (task_def, worker_id))))
       (\<lambda>workers. collect workers
                     (\<lambda>(task_def, worker_id). execute_task now task_def worker_id (proc task_def)))"

subsection \<open>\<^verbatim>\<open>execute\<close>\<close>

fun execute_batches ::
  "int \<Rightarrow> (TaskDefinition \<Rightarrow> proc_result) \<Rightarrow> TaskDefinition list list \<Rightarrow> task_result list
     \<Rightarrow> orch \<Rightarrow> (py_error + task_result list) \<times> orch" where
  "execute_batches now proc [] all_results = act_return all_results"
| "execute_batches now proc (batch # rest) all_results =
     act_bind (execute_batch now proc batch)
       (\<lambda>results. execute_batches now proc rest (all_results @ results))"

definition Orchestrator_execute ::
  "int \<Rightarrow> (TaskDefinition \<Rightarrow> proc_result) \<Rightarrow> orch \<Rightarrow> (py_error + task_result list) \<times> orch"
  where
  "Orchestrator_execute now proc self =
     (case validate_dependencies (o_task_defs self) of
        Inl e \<Rightarrow> (Inl e, self)
      | Inr _ \<Rightarrow>
          (case resolve_dependencies (o_task_defs self) of
             Inl e \<Rightarrow> (Inl e, self)
           | Inr batches \<Rightarrow>
               act_bind create_plan
                 (\<lambda>_. execute_batches now proc batches [])
                 (self\<lparr>o_batches := batches\<rparr>)))"

section \<open>What the worker and the orchestrator do on the store of event\_store\_v2.py\<close>

lemma append_event_Str:
  "\<exists>e c'. append_event now (Str v) run w t p c = (Inl e, c') \<and> db c' = db c"
proof -
  let ?body = "db_raise (no_attribute ''str'' ''value'') :: nat db_action"
  have ap: "append_event now (Str v) run w t p = transaction ?body"
    by (simp add: append_event_def)
  have ins: "inside_txn ?body" by (rule inside_txn_raise)
  from transaction_cases[OF ins, of c]
  show ?thesis
  proof
    assume "\<exists>e c'. transaction ?body c = (Inl e, c') \<and> db c' = db c"
    then show ?thesis unfolding ap .
  next
    assume "\<exists>v c2 s c'. transaction ?body c = (Inr v, c')
       \<and> txn c = None \<and> \<not> faulty c
       \<and> ?body ((tick c)\<lparr>txn := Some (db c)\<rparr>) = (Inr v, c2)
       \<and> txn c2 = Some s \<and> db c' = s \<and> txn c' = None"
    then have False by (simp add: db_raise_def)
    then show ?thesis ..
  qed
qed

lemma append_event_Str_no_faults:
  assumes "no_faults c"
  shows "append_event now (Str v) run w t p c
           = (Inl (no_attribute ''str'' ''value''), c\<lparr>stmts := stmts c + 2\<rparr>)"
  using assms
  by (simp add: append_event_def transaction_def sql_begin_def sql_rollback_def
      rollback_and_raise_def db_raise_def faulty_def tick_def no_faults_def)

lemma on_store_append_event_Str:
  "\<exists>e c'. on_store (append_event now (Str v) run w t p) s = (Inl e, s\<lparr>rt_conn := c'\<rparr>)
          \<and> db c' = db (rt_conn s)"
proof -
  from append_event_Str[of now v run w t p "rt_conn s"] obtain e c' where
    "append_event now (Str v) run w t p (rt_conn s) = (Inl e, c')" "db c' = db (rt_conn s)"
    by blast
  then show ?thesis by (auto simp: on_store_def)
qed

lemma execute_command_raises:
  "\<exists>e c'. execute_command now self cmd wd t result s = (Inl e, s\<lparr>rt_conn := c'\<rparr>)
          \<and> db c' = db (rt_conn s)"
proof -
  from on_store_append_event_Str obtain e c' where
    r: "worker_append_event now self ''start'' [(''command'', JStr cmd)] s
          = (Inl e, s\<lparr>rt_conn := c'\<rparr>)" and d: "db c' = db (rt_conn s)"
    unfolding worker_append_event_def by blast
  have "execute_command now self cmd wd t result s = (Inl e, s\<lparr>rt_conn := c'\<rparr>)"
    unfolding execute_command_def by (simp add: act_bind_def r)
  then show ?thesis using d by blast
qed

lemma execute_each_txn:
  "txn c = Some s \<Longrightarrow> txn (snd (execute_each n c)) = Some s"
proof (induction n arbitrary: c)
  case 0
  then show ?case by (simp add: db_return_def)
next
  case (Suc n)
  show ?case
  proof (cases "faulty c")
    case True
    then show ?thesis using Suc.prems by (simp add: db_bind_def execute_def tick_def)
  next
    case False
    then have "execute_each (Suc n) c = execute_each n ((tick c)\<lparr>txn := Some s\<rparr>)"
      using Suc.prems by (simp add: db_bind_def execute_def)
    then show ?thesis using Suc.IH[of "(tick c)\<lparr>txn := Some s\<rparr>"] by simp
  qed
qed

lemma inside_txn_execute_each: "inside_txn (execute_each n)"
  by (induction n) (simp_all add: inside_txn_return inside_txn_bind inside_txn_execute)

lemma init_schema_db: "db (snd (init_schema c)) = db c"
proof -
  from transaction_cases[OF inside_txn_execute_each, of 13 c]
  show ?thesis
  proof
    assume "\<exists>e c'. transaction (execute_each 13) c = (Inl e, c') \<and> db c' = db c"
    then show ?thesis by (auto simp: init_schema_def)
  next
    assume "\<exists>v c2 s c'. transaction (execute_each 13) c = (Inr v, c') \<and> txn c = None
       \<and> \<not> faulty c \<and> execute_each 13 ((tick c)\<lparr>txn := Some (db c)\<rparr>) = (Inr v, c2)
       \<and> txn c2 = Some s \<and> db c' = s \<and> txn c' = None"
    then obtain v c2 s c' where r: "transaction (execute_each 13) c = (Inr v, c')"
      "execute_each 13 ((tick c)\<lparr>txn := Some (db c)\<rparr>) = (Inr v, c2)" "txn c2 = Some s"
      "db c' = s" by blast
    have "txn (snd (execute_each 13 ((tick c)\<lparr>txn := Some (db c)\<rparr>))) = Some (db c)"
      by (rule execute_each_txn) simp
    then have "s = db c" using r(2,3) by simp
    then show ?thesis using r(1,4) by (simp add: init_schema_def)
  qed
qed

lemma store_attribute_create_worker:
  "store_attribute ''create_worker'' s = (Inl (no_attribute ''EventStoreV2'' ''create_worker''), s)"
  by (simp add: store_attribute_def EventStoreV2_attributes_def act_raise_def)

lemma store_attribute_create_plan:
  "store_attribute ''create_plan'' s = (Inl (no_attribute ''EventStoreV2'' ''create_plan''), s)"
  by (simp add: store_attribute_def EventStoreV2_attributes_def act_raise_def)

lemma Worker_init_raises:
  "\<exists>e c'. Worker_init run wid tid s = (Inl e, s\<lparr>rt_conn := c'\<rparr>) \<and> db c' = db (rt_conn s)"
proof (cases "init_schema (rt_conn s)")
  case (Pair r c')
  have d: "db c' = db (rt_conn s)" using init_schema_db[of "rt_conn s"] Pair by simp
  show ?thesis
  proof (cases r)
    case (Inl e)
    then have "Worker_init run wid tid s = (Inl e, s\<lparr>rt_conn := c'\<rparr>)"
      using Pair by (simp add: Worker_init_def act_bind_def on_store_def)
    then show ?thesis using d by blast
  next
    case (Inr u)
    then have "Worker_init run wid tid s
                 = (Inl (no_attribute ''EventStoreV2'' ''create_worker''), s\<lparr>rt_conn := c'\<rparr>)"
      using Pair
      by (simp add: Worker_init_def act_bind_def on_store_def store_attribute_create_worker)
    then show ?thesis using d by blast
  qed
qed

lemma construct_Task_raises:
  "construct_Task task_def s = (Inl (unexpected_keyword ''Task.__init__'' ''dependencies''), s)"
  by (simp add: construct_Task_def bind_error_def Task_fields_def Task_required_def
      plan_task_keywords_def act_raise_def)

lemma create_plan_raises:
  "create_plan self =
     (Inl (if concat (o_batches self) = [] then no_attribute ''EventStoreV2'' ''create_plan''
           else unexpected_keyword ''Task.__init__'' ''dependencies''), self)"
proof (cases "concat (o_batches self)")
  case Nil
  have "for_each (concat (o_batches self)) construct_Task self = (Inr (), self)"
    unfolding Nil by (simp add: act_return_def)
  then have "create_plan self = (Inl (no_attribute ''EventStoreV2'' ''create_plan''), self)"
    unfolding create_plan_def act_bind_def by (simp add: store_attribute_create_plan)
  then show ?thesis unfolding Nil by simp
next
  case (Cons t ts)
  have "for_each (concat (o_batches self)) construct_Task self
          = (Inl (unexpected_keyword ''Task.__init__'' ''dependencies''), self)"
    unfolding Cons by (simp add: act_bind_def construct_Task_raises)
  then have "create_plan self
               = (Inl (unexpected_keyword ''Task.__init__'' ''dependencies''), self)"
    unfolding create_plan_def act_bind_def by simp
  then show ?thesis unfolding Cons by simp
qed

text \<open>Every run ends in an exception: of the validation, of the resolver, or of
  \<^verbatim>\<open>_create_plan\<close>; no batch is started.\<close>

lemma Orchestrator_execute_cases:
  "(\<exists>e. validate_dependencies (o_task_defs self) = Inl e
        \<and> Orchestrator_execute now proc self = (Inl e, self))
   \<or> (\<exists>e. validate_dependencies (o_task_defs self) = Inr ()
          \<and> resolve_dependencies (o_task_defs self) = Inl e
          \<and> Orchestrator_execute now proc self = (Inl e, self))
   \<or> (\<exists>batches. validate_dependencies (o_task_defs self) = Inr ()
          \<and> resolve_dependencies (o_task_defs self) = Inr batches
          \<and> Orchestrator_execute now proc self
              = (Inl (if concat batches = [] then no_attribute ''EventStoreV2'' ''create_plan''
                      else unexpected_keyword ''Task.__init__'' ''dependencies''),
                 self\<lparr>o_batches := batches\<rparr>))"
proof (cases "validate_dependencies (o_task_defs self)")
  case (Inl e)
  then show ?thesis by (simp add: Orchestrator_execute_def)
next
  case (Inr u)
  show ?thesis
  proof (cases "resolve_dependencies (o_task_defs self)")
    case (Inl e)
    then show ?thesis using Inr by (simp add: Orchestrator_execute_def)
  next
    case r: (Inr batches)
    have "Orchestrator_execute now proc self
              = (Inl (if concat batches = [] then no_attribute ''EventStoreV2'' ''create_plan''
                      else unexpected_keyword ''Task.__init__'' ''dependencies''),
                 self\<lparr>o_batches := batches\<rparr>)"
      using Inr r create_plan_raises[of "self\<lparr>o_batches := batches\<rparr>"]
      by (simp add: Orchestrator_execute_def act_bind_def)
    then show ?thesis using Inr r by simp
  qed
qed

subsection \<open>Claims C6 and C7: planning errors\<close>

definition new_orchestrator :: "string \<Rightarrow> string \<Rightarrow> TaskDefinition list \<Rightarrow> orch" where
  "new_orchestrator run_id run_dir task_defs =
     \<lparr>rt_conn = open_conn empty_store [], rt_launched = [], o_run_id = run_id,
      o_run_dir = run_dir, o_task_defs = task_defs, o_batches = []\<rparr>"

definition task_X :: TaskDefinition where
  "task_X = \<lparr>name = ''X'', command = ''make x'', prompt = '''', dependencies = [''Y''],
             timeout = 300\<rparr>"

definition task_Y :: TaskDefinition where
  "task_Y = \<lparr>name = ''Y'', command = ''make y'', prompt = '''', dependencies = [''X''],
             timeout = 300\<rparr>"

lemma resolve_cyclic:
  assumes "\<not> acyclic (dep_rel T)"
  shows "resolve_dependencies T = Inl (ValueError circular_msg)"
proof (cases "resolve_dependencies T")
  case (Inl e)
  then show ?thesis using resolve_loop_error[of T "{}" "[]" e]
    by (simp add: resolve_dependencies_def)
next
  case (Inr R)
  then show ?thesis using resolved_distinct_acyclic(2)[OF Inr] assms by simp
qed

text \<open>
  Claim C6. When the dependency relation of the task list has a cycle, the resolver
  raises the circular-dependency error and returns no batches; \<open>execute\<close> raises (the
  same error when all dependency names are known, the unknown-dependency error
  otherwise) and leaves the orchestrator as it was: no batch is stored, no subprocess is
  launched, the store is untouched.
\<close>

theorem cyclic_tasks_rejected:
  assumes "\<not> acyclic (dep_rel (o_task_defs self))"
  shows "resolve_dependencies (o_task_defs self) = Inl (ValueError circular_msg)
         \<and> (\<exists>e. Orchestrator_execute now proc self = (Inl e, self)
                \<and> (valid_deps (o_task_defs self) \<longrightarrow> e = ValueError circular_msg))"
proof -
  have r: "resolve_dependencies (o_task_defs self) = Inl (ValueError circular_msg)"
    using assms by (rule resolve_cyclic)
  from Orchestrator_execute_cases[of self now proc]
  have "\<exists>e. Orchestrator_execute now proc self = (Inl e, self)
                \<and> (valid_deps (o_task_defs self) \<longrightarrow> e = ValueError circular_msg)"
  proof (elim disjE exE conjE)
    fix e assume v: "validate_dependencies (o_task_defs self) = Inl e"
      and x: "Orchestrator_execute now proc self = (Inl e, self)"
    have "\<not> valid_deps (o_task_defs self)" using v validate_dependencies_ok by force
    then show ?thesis using x by blast
  next
    fix e assume "resolve_dependencies (o_task_defs self) = Inl e"
      and x: "Orchestrator_execute now proc self = (Inl e, self)"
    then have "e = ValueError circular_msg" using r by simp
    then show ?thesis using x by blast
  next
    fix batches assume "resolve_dependencies (o_task_defs self) = Inr batches"
    then show ?thesis using r by simp
  qed
  then show ?thesis using r by blast
qed

lemma XY_cyclic: "\<not> acyclic (dep_rel [task_X, task_Y])"
proof -
  have "(''X'', ''Y'') \<in> dep_rel [task_X, task_Y]"
    unfolding dep_rel_def by (rule CollectI, rule exI[of _ task_X], rule exI[of _ "''Y''"])
      (simp add: task_X_def)
  moreover have "(''Y'', ''X'') \<in> dep_rel [task_X, task_Y]"
    unfolding dep_rel_def by (rule CollectI, rule exI[of _ task_Y], rule exI[of _ "''X''"])
      (simp add: task_Y_def)
  ultimately have "(''X'', ''X'') \<in> (dep_rel [task_X, task_Y])\<^sup>+"
    by (rule trancl_into_trancl[OF r_into_trancl])
  then show ?thesis unfolding acyclic_def by blast
qed

theorem cyclic_tasks_rejected_witness:
  "\<not> acyclic (dep_rel [task_X, task_Y])
   \<and> resolve_dependencies [task_X, task_Y] = Inl (ValueError circular_msg)
   \<and> Orchestrator_execute 0 (\<lambda>t. Completed 0 [] []) (new_orchestrator ''R1'' ''runs/R1'' [task_X, task_Y])
       = (Inl (ValueError circular_msg), new_orchestrator ''R1'' ''runs/R1'' [task_X, task_Y])"
proof -
  let ?o = "new_orchestrator ''R1'' ''runs/R1'' [task_X, task_Y]"
  have t: "o_task_defs ?o = [task_X, task_Y]" by (simp add: new_orchestrator_def)
  have c: "\<not> acyclic (dep_rel (o_task_defs ?o))" unfolding t by (rule XY_cyclic)
  have v: "valid_deps (o_task_defs ?o)"
    unfolding t by (simp add: valid_deps_def task_X_def task_Y_def)
  from cyclic_tasks_rejected[OF c, of 0 "\<lambda>t. Completed 0 [] []"] v
  have "resolve_dependencies [task_X, task_Y] = Inl (ValueError circular_msg)"
    and "Orchestrator_execute 0 (\<lambda>t. Completed 0 [] []) ?o = (Inl (ValueError circular_msg), ?o)"
    unfolding t by auto
  then show ?thesis using XY_cyclic by (intro conjI)
qed

text \<open>
  Claim C7. When some task names a dependency that is no task name, validation raises
  the error whose message names such a task and dependency, and \<open>execute\<close> raises that
  error and leaves the orchestrator as it was: no batch is computed or stored, no
  subprocess is launched, the store is untouched.
\<close>

theorem unknown_dependency_rejected:
  assumes "\<not> valid_deps (o_task_defs self)"
  shows "\<exists>t \<in> set (o_task_defs self). \<exists>d \<in> set (dependencies t).
           d \<notin> set (map name (o_task_defs self))
           \<and> validate_dependencies (o_task_defs self)
               = Inl (ValueError (unknown_dependency_msg (name t) d))
           \<and> Orchestrator_execute now proc self
               = (Inl (ValueError (unknown_dependency_msg (name t) d)), self)
           \<and> sublist (quoted (name t)) (unknown_dependency_msg (name t) d)
           \<and> sublist (quoted d) (unknown_dependency_msg (name t) d)"
proof -
  let ?T = "o_task_defs self"
  have "validate_dependencies ?T \<noteq> Inr ()" using assms validate_dependencies_ok by blast
  then obtain e where e: "validate_dependencies ?T = Inl e"
    by (cases "validate_dependencies ?T") auto
  then have "validate_tasks (set (map name ?T)) ?T = Inl e" by (simp add: validate_dependencies_def)
  from validate_tasks_Inl[OF this] obtain t d where td: "t \<in> set ?T" "d \<in> set (dependencies t)"
    "d \<notin> set (map name ?T)" "e = ValueError (unknown_dependency_msg (name t) d)" by blast
  have x: "Orchestrator_execute now proc self = (Inl e, self)"
    using e by (simp add: Orchestrator_execute_def)
  have s1: "sublist (quoted (name t)) (unknown_dependency_msg (name t) d)"
    unfolding sublist_def unknown_dependency_msg_def quoted_def
    by (rule exI[of _ "''Task ''"],
        rule exI[of _ "'' depends on unknown task '' @ [CHR 0x27] @ d @ [CHR 0x27]"]) simp
  have s2: "sublist (quoted d) (unknown_dependency_msg (name t) d)"
    unfolding sublist_def unknown_dependency_msg_def quoted_def
    by (rule exI[of _ "''Task '' @ [CHR 0x27] @ name t @ [CHR 0x27] @ '' depends on unknown task ''"],
        rule exI[of _ "[]"]) simp
  show ?thesis
    by (rule bexI[OF _ td(1)], rule bexI[OF _ td(2)]) (use td(3,4) e x s1 s2 in simp)
qed

definition task_B_alone :: "TaskDefinition list" where
  "task_B_alone = [task_B]"

theorem unknown_dependency_rejected_witness:
  "\<not> valid_deps task_B_alone
   \<and> validate_dependencies task_B_alone = Inl (ValueError (unknown_dependency_msg ''B'' ''A''))
   \<and> Orchestrator_execute 0 (\<lambda>t. Completed 0 [] []) (new_orchestrator ''R1'' ''runs/R1'' task_B_alone)
       = (Inl (ValueError (unknown_dependency_msg ''B'' ''A'')),
          new_orchestrator ''R1'' ''runs/R1'' task_B_alone)"
proof -
  let ?o = "new_orchestrator ''R1'' ''runs/R1'' task_B_alone"
  have t: "o_task_defs ?o = [task_B]" by (simp add: new_orchestrator_def task_B_alone_def)
  have nv: "\<not> valid_deps task_B_alone" by (simp add: valid_deps_def task_B_alone_def task_B_def)
  then have nv': "\<not> valid_deps (o_task_defs ?o)" unfolding t by (simp add: task_B_alone_def)
  from unknown_dependency_rejected[OF nv', of 0 "\<lambda>t. Completed 0 [] []"]
  obtain u d where ud: "u \<in> set [task_B]" "d \<in> set (dependencies u)"
    "validate_dependencies [task_B] = Inl (ValueError (unknown_dependency_msg (name u) d))"
    "Orchestrator_execute 0 (\<lambda>t. Completed 0 [] []) ?o
       = (Inl (ValueError (unknown_dependency_msg (name u) d)), ?o)"
    unfolding t by blast
  have "name u = ''B''" "d = ''A''" using ud(1,2) by (simp_all add: task_B_def)
  then show ?thesis using nv ud(3,4) by (simp add: task_B_alone_def)
qed

subsection \<open>Claims C5, C8 and C10: the reports never reach the store\<close>

definition fresh_runtime :: runtime where
  "fresh_runtime = \<lparr>rt_conn = open_conn empty_store [], rt_launched = []\<rparr>"

definition worker_A :: Worker where
  "worker_A = \<lparr>wk_run_id = ''R1'', wk_worker_id = ''W-A'', wk_task_id = ''A''\<rparr>"

lemma report_task_error_raises:
  "\<exists>e c'. report_task_error now task_def wid msg self = (Inl e, self\<lparr>rt_conn := c'\<rparr>)
          \<and> db c' = db (rt_conn self)"
proof -
  from on_store_append_event_Str obtain e c' where
    r: "orch_append_event now (o_run_id self) wid ''error'' (name task_def)
          [(''error'', JStr msg)] self = (Inl e, self\<lparr>rt_conn := c'\<rparr>)"
    and d: "db c' = db (rt_conn self)"
    unfolding orch_append_event_def by blast
  have "report_task_error now task_def wid msg self = (Inl e, self\<lparr>rt_conn := c'\<rparr>)"
    unfolding report_task_error_def by (simp add: act_bind_def r)
  then show ?thesis using d by blast
qed

text \<open>An action that, from every state, raises and leaves the tables as they were.\<close>

definition raises_keeping_db :: "(orch \<Rightarrow> (py_error + 'a) \<times> orch) \<Rightarrow> bool" where
  "raises_keeping_db a =
     (\<forall>s. \<exists>e s'. a s = (Inl e, s') \<and> db (rt_conn s') = db (rt_conn s))"

lemma raises_keeping_db_bind:
  "raises_keeping_db m \<Longrightarrow> raises_keeping_db (act_bind m f)"
  unfolding raises_keeping_db_def
proof
  fix s assume a: "\<forall>s. \<exists>e s'. m s = (Inl e, s') \<and> db (rt_conn s') = db (rt_conn s)"
  then obtain e s' where "m s = (Inl e, s')" "db (rt_conn s') = db (rt_conn s)" by blast
  then show "\<exists>e s'. act_bind m f s = (Inl e, s') \<and> db (rt_conn s') = db (rt_conn s)"
    by (simp add: act_bind_def)
qed

lemma raises_keeping_db_try:
  assumes "raises_keeping_db body" "\<And>e. raises_keeping_db (handler e)"
  shows "raises_keeping_db (try_except body handler)"
  unfolding raises_keeping_db_def
proof
  fix s
  from assms(1) obtain e s1 where b: "body s = (Inl e, s1)" "db (rt_conn s1) = db (rt_conn s)"
    unfolding raises_keeping_db_def by blast
  from assms(2)[of e] obtain e' s2 where h: "handler e s1 = (Inl e', s2)"
    "db (rt_conn s2) = db (rt_conn s1)"
    unfolding raises_keeping_db_def by blast
  show "\<exists>e s'. try_except body handler s = (Inl e, s') \<and> db (rt_conn s') = db (rt_conn s)"
    using b h by (simp add: try_except_def)
qed

lemma raises_keeping_db_report: "raises_keeping_db (report_task_error now task_def wid msg)"
  unfolding raises_keeping_db_def
proof
  fix s
  from report_task_error_raises[of now task_def wid msg s]
  show "\<exists>e s'. report_task_error now task_def wid msg s = (Inl e, s')
          \<and> db (rt_conn s') = db (rt_conn s)" by auto
qed

lemma raises_keeping_db_append:
  "raises_keeping_db (orch_append_event now run wid kind task p)"
  unfolding raises_keeping_db_def
proof
  fix s :: orch
  from on_store_append_event_Str[of now kind run "Some wid" "Some task" "Some p" s]
  show "\<exists>e s'. orch_append_event now run wid kind task p s = (Inl e, s')
          \<and> db (rt_conn s') = db (rt_conn s)"
    unfolding orch_append_event_def by auto
qed

lemma raises_keeping_db_raise: "raises_keeping_db (act_raise e)"
  by (simp add: raises_keeping_db_def act_raise_def)

lemma execute_task_inner_raises:
  "raises_keeping_db
     (act_bind (wait_for_communicate result)
        (\<lambda>(returncode, out, err).
           act_bind
             (if returncode = 0
              then act_bind (orch_append_event now run wid ''artifact'' task p1)
                     (\<lambda>_. act_bind (orch_append_event now run wid ''done'' task p2)
                             (\<lambda>_. call_update_worker_status))
              else report_task_error now task_def wid (msg err))
             (k returncode out err)))"
proof (cases result)
  case (Completed rc out err)
  have "raises_keeping_db
          (act_bind
             (if rc = 0
              then act_bind (orch_append_event now run wid ''artifact'' task p1)
                     (\<lambda>_. act_bind (orch_append_event now run wid ''done'' task p2)
                             (\<lambda>_. call_update_worker_status))
              else report_task_error now task_def wid (msg err))
             (k rc out err))"
    by (intro raises_keeping_db_bind)
       (simp add: raises_keeping_db_bind raises_keeping_db_append raises_keeping_db_report)
  then show ?thesis
    using Completed
    by (simp add: raises_keeping_db_def wait_for_communicate_def act_bind_def act_return_def)
next
  case TimedOut
  then show ?thesis
    by (simp add: raises_keeping_db_def wait_for_communicate_def act_bind_def act_raise_def)
next
  case (Failed m)
  then show ?thesis
    by (simp add: raises_keeping_db_def wait_for_communicate_def act_bind_def act_raise_def)
qed

lemma execute_task_raises:
  "\<exists>e s'. execute_task now task_def wid result self = (Inl e, s')
          \<and> db (rt_conn s') = db (rt_conn self)"
proof -
  let ?handler = "\<lambda>e. act_bind (report_task_error now task_def wid (''Exception: '' @ exc_str e))
               (\<lambda>_. act_return
                       \<lparr>r_task = name task_def, r_worker = wid, r_success = False,
                        r_output = None, r_error = Some (''Exception: '' @ exc_str e)\<rparr>)"
  have h: "raises_keeping_db (?handler e)" for e
    by (intro raises_keeping_db_bind raises_keeping_db_report)
  have inner: "raises_keeping_db
      (try_except
         (act_bind (wait_for_communicate result)
            (\<lambda>(returncode, out, err).
               act_bind
                 (if returncode = 0
                  then act_bind
                         (orch_append_event now (o_run_id self) wid ''artifact'' (name task_def)
                            [(''path'', JStr (o_run_dir self @ ''/workers/'' @ wid
                                               @ ''/output.txt''))])
                         (\<lambda>_. act_bind
                                 (orch_append_event now (o_run_id self) wid ''done''
                                    (name task_def) [(''success'', JBool True)])
                                 (\<lambda>_. call_update_worker_status))
                  else report_task_error now task_def wid
                         (if err \<noteq> [] then err else ''Command failed''))
                 (\<lambda>_. act_return
                         \<lparr>r_task = name task_def, r_worker = wid,
                          r_success = (returncode = 0), r_output = Some out,
                          r_error = (if err \<noteq> [] then Some err else None)\<rparr>)))
         (\<lambda>e. case e of
                 TimeoutExpired \<Rightarrow>
                   act_bind
                     (report_task_error now task_def wid
                        (''Task timed out after '' @ str_int (timeout task_def) @ ''s''))
                     (\<lambda>_. act_return
                             \<lparr>r_task = name task_def, r_worker = wid,
                              r_success = False, r_output = None,
                              r_error = Some (''Task timed out after ''
                                                @ str_int (timeout task_def) @ ''s'')\<rparr>)
               | _ \<Rightarrow> act_raise e))"
  proof (rule raises_keeping_db_try)
    show "raises_keeping_db
      (act_bind (wait_for_communicate result)
            (\<lambda>(returncode, out, err).
               act_bind
                 (if returncode = 0
                  then act_bind
                         (orch_append_event now (o_run_id self) wid ''artifact'' (name task_def)
                            [(''path'', JStr (o_run_dir self @ ''/workers/'' @ wid
                                               @ ''/output.txt''))])
                         (\<lambda>_. act_bind
                                 (orch_append_event now (o_run_id self) wid ''done''
                                    (name task_def) [(''success'', JBool True)])
                                 (\<lambda>_. call_update_worker_status))
                  else report_task_error now task_def wid
                         (if err \<noteq> [] then err else ''Command failed''))
                 (\<lambda>_. act_return
                         \<lparr>r_task = name task_def, r_worker = wid,
                          r_success = (returncode = 0), r_output = Some out,
                          r_error = (if err \<noteq> [] then Some err else None)\<rparr>)))"
      by (rule execute_task_inner_raises
            [where msg="\<lambda>err. if err \<noteq> [] then err else ''Command failed''"])
  next
    fix e
    show "raises_keeping_db
            (case e of
                 TimeoutExpired \<Rightarrow>
                   act_bind
                     (report_task_error now task_def wid
                        (''Task timed out after '' @ str_int (timeout task_def) @ ''s''))
                     (\<lambda>_. act_return
                             \<lparr>r_task = name task_def, r_worker = wid,
                              r_success = False, r_output = None,
                              r_error = Some (''Task timed out after ''
                                                @ str_int (timeout task_def) @ ''s'')\<rparr>)
               | _ \<Rightarrow> act_raise e)"
      by (cases e)
         (simp_all add: raises_keeping_db_raise raises_keeping_db_bind raises_keeping_db_report)
  qed
  have body: "raises_keeping_db
      (act_bind (create_subprocess_shell (shell_command task_def) result) (\<lambda>_. inner))"
    if "raises_keeping_db inner" for inner :: "orch \<Rightarrow> (py_error + task_result) \<times> orch"
    unfolding raises_keeping_db_def
  proof
    fix s :: orch
    show "\<exists>e s'. act_bind (create_subprocess_shell (shell_command task_def) result) (\<lambda>_. inner) s
                   = (Inl e, s') \<and> db (rt_conn s') = db (rt_conn s)"
    proof (cases "\<exists>m. result = Failed m")
      case True
      then show ?thesis by (auto simp: act_bind_def create_subprocess_shell_def)
    next
      case False
      let ?s1 = "s\<lparr>rt_launched := rt_launched s @ [shell_command task_def]\<rparr>"
      have c: "create_subprocess_shell (shell_command task_def) result s = (Inr (), ?s1)"
        using False by (cases result) (simp_all add: create_subprocess_shell_def)
      from that obtain e s' where "inner ?s1 = (Inl e, s')" "db (rt_conn s') = db (rt_conn ?s1)"
        unfolding raises_keeping_db_def by blast
      then show ?thesis using c by (simp add: act_bind_def)
    qed
  qed
  note R = raises_keeping_db_try[OF body[OF inner] h]
  show ?thesis
    unfolding execute_task_def by (rule R[unfolded raises_keeping_db_def, THEN spec])
qed

lemma Worker_init_fresh:
  "fst (Worker_init ''R1'' ''W-A'' ''A'' fresh_runtime)
     = Inl (no_attribute ''EventStoreV2'' ''create_worker'')"
  by code_simp

lemma execute_command_fresh:
  "execute_command 0 worker_A cmd wd t result fresh_runtime
     = (Inl (no_attribute ''str'' ''value''),
        fresh_runtime\<lparr>rt_conn := (open_conn empty_store [])\<lparr>stmts := 2\<rparr>\<rparr>)"
proof -
  have nf: "no_faults (open_conn empty_store [])" by (simp add: no_faults_def open_conn_def)
  have "worker_append_event 0 worker_A ''start'' [(''command'', JStr cmd)] fresh_runtime
          = (Inl (no_attribute ''str'' ''value''),
             fresh_runtime\<lparr>rt_conn := (open_conn empty_store [])\<lparr>stmts := 2\<rparr>\<rparr>)"
    unfolding worker_append_event_def on_store_def
    by (simp add: fresh_runtime_def append_event_Str_no_faults[OF nf]) (simp add: open_conn_def)
  then show ?thesis unfolding execute_command_def by (simp add: act_bind_def)
qed

text \<open>
  Claim C5 on the code. The constructor of \<open>Worker\<close> raises on
  \<^verbatim>\<open>self.store.create_worker\<close>, which the store does not define; \<open>execute_command\<close>
  raises in its first statement, the \<open>append_event\<close> of the start event, which reads
  \<^verbatim>\<open>.value\<close> of the string it is given; \<open>_execute_task\<close> raises in its last handler for
  the same reason. In each case the exception leaves the function and the tables are as
  before, so no worker row is ever set to done or error. For a command that exits with
  code 0 on a fresh store the errors are the two \<^verbatim>\<open>AttributeError\<close>s and the workers
  table stays empty.
\<close>

theorem worker_reports_never_stored:
  "(\<exists>e c'. Worker_init run wid tid s = (Inl e, s\<lparr>rt_conn := c'\<rparr>) \<and> db c' = db (rt_conn s))
   \<and> (\<exists>e c'. execute_command now self cmd wd t result s = (Inl e, s\<lparr>rt_conn := c'\<rparr>)
          \<and> db c' = db (rt_conn s))
   \<and> (\<exists>e orch'. execute_task now task_def worker_id result orchestrator = (Inl e, orch')
          \<and> db (rt_conn orch') = db (rt_conn orchestrator))
   \<and> fst (Worker_init ''R1'' ''W-A'' ''A'' fresh_runtime)
       = Inl (no_attribute ''EventStoreV2'' ''create_worker'')
   \<and> fst (execute_command 0 worker_A ''true'' ''/tmp/W-A'' 300 (Completed 0 [] []) fresh_runtime)
       = Inl (no_attribute ''str'' ''value'')
   \<and> workers (db (rt_conn (snd (execute_command 0 worker_A ''true'' ''/tmp/W-A'' 300
                                   (Completed 0 [] []) fresh_runtime)))) = []"
proof -
  have w: "workers (db (rt_conn (snd (execute_command 0 worker_A ''true'' ''/tmp/W-A'' 300
                                   (Completed 0 [] []) fresh_runtime)))) = []"
    unfolding execute_command_fresh by (simp add: open_conn_def empty_store_def)
  have x: "fst (execute_command 0 worker_A ''true'' ''/tmp/W-A'' 300 (Completed 0 [] [])
                  fresh_runtime) = Inl (no_attribute ''str'' ''value'')"
    unfolding execute_command_fresh by simp
  show ?thesis
    by (intro conjI Worker_init_raises execute_command_raises execute_task_raises
        Worker_init_fresh x w)
qed









subsection \<open>Two batches of two tasks\<close>

definition task_P :: TaskDefinition where
  "task_P = \<lparr>name = ''P'', command = ''make p'', prompt = [], dependencies = [],
             timeout = 300\<rparr>"

definition task_Q :: TaskDefinition where
  "task_Q = \<lparr>name = ''Q'', command = ''exit 1'', prompt = [], dependencies = [],
             timeout = 300\<rparr>"

definition task_R :: TaskDefinition where
  "task_R = \<lparr>name = ''R'', command = ''make r'', prompt = [], dependencies = [''P''],
             timeout = 300\<rparr>"

definition task_S :: TaskDefinition where
  "task_S = \<lparr>name = ''S'', command = ''make s'', prompt = [], dependencies = [''Q''],
             timeout = 300\<rparr>"

text \<open>The subprocess of \<open>Q\<close> exits with code 1, the others with code 0.\<close>

definition one_failure :: "TaskDefinition \<Rightarrow> proc_result" where
  "one_failure task_def =
     (if name task_def = ''Q'' then Completed 1 [] ''boom'' else Completed 0 ''ok'' [])"

lemma resolve_PQRS:
  "resolve_dependencies [task_P, task_Q, task_R, task_S]
     = Inr [[task_P, task_Q], [task_R, task_S]]"
  by (simp add: resolve_dependencies_def ready_tasks_def task_P_def task_Q_def task_R_def
      task_S_def)

lemma validate_PQRS: "validate_dependencies [task_P, task_Q, task_R, task_S] = Inr ()"
  by (simp add: validate_dependencies_def task_P_def task_Q_def task_R_def task_S_def)

text \<open>
  Claim C8 on the code. Every run raises: after validation and resolution,
  \<^verbatim>\<open>_create_plan\<close> raises the \<^verbatim>\<open>TypeError\<close> of \<^verbatim>\<open>Task(dependencies=...)\<close> (or, for an
  empty plan, the \<^verbatim>\<open>AttributeError\<close> of \<^verbatim>\<open>self.store.create_plan\<close>), so no batch is
  started, no subprocess is launched and no result list is returned. For the two batches
  \<open>[P, Q]\<close> and \<open>[R, S]\<close> with \<open>Q\<close> failing, the run ends in that \<^verbatim>\<open>TypeError\<close> with the
  batches stored and nothing else changed.
\<close>

theorem run_raises_before_first_batch:
  "(\<exists>e orch'. Orchestrator_execute now proc self = (Inl e, orch')
        \<and> rt_launched orch' = rt_launched self \<and> rt_conn orch' = rt_conn self)
   \<and> Orchestrator_execute 0 one_failure
        (new_orchestrator ''R1'' ''runs/R1'' [task_P, task_Q, task_R, task_S])
       = (Inl (unexpected_keyword ''Task.__init__'' ''dependencies''),
          (new_orchestrator ''R1'' ''runs/R1'' [task_P, task_Q, task_R, task_S])
            \<lparr>o_batches := [[task_P, task_Q], [task_R, task_S]]\<rparr>)"
proof -
  have a: "\<exists>e orch'. Orchestrator_execute now proc self = (Inl e, orch')
        \<and> rt_launched orch' = rt_launched self \<and> rt_conn orch' = rt_conn self"
    using Orchestrator_execute_cases[of self now proc] by (elim disjE exE conjE) simp_all
  let ?o = "new_orchestrator ''R1'' ''runs/R1'' [task_P, task_Q, task_R, task_S]"
  have t: "o_task_defs ?o = [task_P, task_Q, task_R, task_S]" by (simp add: new_orchestrator_def)
  have b: "Orchestrator_execute 0 one_failure ?o
       = (Inl (unexpected_keyword ''Task.__init__'' ''dependencies''),
          ?o\<lparr>o_batches := [[task_P, task_Q], [task_R, task_S]]\<rparr>)"
    using Orchestrator_execute_cases[of ?o 0 one_failure]
    unfolding t validate_PQRS resolve_PQRS by simp
  show ?thesis by (intro conjI a b)
qed

end
